theory Spec2Isabelle
  imports Complex_Main "HOL-Library.Sublist" "HOL-Library.Word"
begin

section \<open>JavaScript values used by the translators\<close>

text \<open>
  JavaScript strings are modelled as \<^typ>\<open>string\<close>; an optional field
  (\<^verbatim>\<open>undefined\<close> or \<^verbatim>\<open>null\<close>) is an \<^typ>\<open>'a option\<close>.  A string is
  truthy when it is present and not empty.
\<close>

definition truthy_str :: "string option \<Rightarrow> bool" where
  "truthy_str s = (case s of None \<Rightarrow> False | Some t \<Rightarrow> t \<noteq> [])"

text \<open>\<^verbatim>\<open>x ?? d\<close>: the default applies only when the value is missing.\<close>

definition the_default :: "'a \<Rightarrow> 'a option \<Rightarrow> 'a" where
  "the_default d x = (case x of None \<Rightarrow> d | Some v \<Rightarrow> v)"

text \<open>\<^verbatim>\<open>a || b\<close> on optional strings.\<close>

definition or_str :: "string option \<Rightarrow> string option \<Rightarrow> string option" where
  "or_str a b = (if truthy_str a then a else b)"

text \<open>\<^verbatim>\<open>s.replace(pat, "")\<close> with a string pattern: the first occurrence is removed.\<close>

fun remove_first :: "string \<Rightarrow> string \<Rightarrow> string" where
  "remove_first pat [] = []"
| "remove_first pat (c # cs) =
     (if prefix pat (c # cs) then drop (length pat) (c # cs)
      else c # remove_first pat cs)"

text \<open>
  A JavaScript \<^verbatim>\<open>Map\<close>: keys in insertion order; \<^verbatim>\<open>set\<close> on a key that is
  present replaces the value in place, otherwise the entry is appended.
\<close>

fun map_set :: "'k \<Rightarrow> 'v \<Rightarrow> ('k \<times> 'v) list \<Rightarrow> ('k \<times> 'v) list" where
  "map_set k v [] = [(k, v)]"
| "map_set k v ((k', v') # kvs) =
     (if k = k' then (k, v) # kvs else (k', v') # map_set k v kvs)"

definition map_get :: "('k \<times> 'v) list \<Rightarrow> 'k \<Rightarrow> 'v option" where
  "map_get kvs k = map_of kvs k"

section \<open>OpenAI to Claude: response chunk translator\<close>

subsection \<open>Upstream chunks (OpenAI chat-completion stream)\<close>

record tc_function =
  fn_name :: "string option"
  fn_arguments :: "string option"

record tool_call_delta =
  tc_index :: "int option"
  tc_id :: "string option"
  tc_function :: "tc_function option"

record oa_delta =
  reasoning_content :: "string option"
  reasoning :: "string option"
  content :: "string option"
  tool_calls :: "tool_call_delta list option"

record oa_choice =
  delta :: "oa_delta option"
  finish_reason :: "string option"

record extend_fields =
  requestId :: "string option"
  traceId :: "string option"

record oa_chunk =
  chunk_id :: "string option"
  chunk_model :: "string option"
  chunk_extend_fields :: "extend_fields option"
  choices :: "oa_choice list option"

subsection \<open>Client events (Claude message stream)\<close>

datatype content_block =
    ThinkingBlock string
  | TextBlock string
  | ToolUseBlock "string" "string"

datatype block_delta =
    ThinkingDelta string
  | TextDelta string
  | InputJsonDelta string

datatype claude_event =
    MessageStart "string option" string
  | ContentBlockStart "int option" content_block
  | ContentBlockDelta "int option" block_delta
  | ContentBlockStop "int option"
  | MessageDelta string
  | MessageStop

subsection \<open>Streaming state\<close>

record tool_info =
  ti_id :: string
  ti_name :: string
  ti_blockIndex :: int

record oc_state =
  messageStartSent :: bool
  messageId :: "string option"
  model :: "string option"
  nextBlockIndex :: int
  thinkingBlockStarted :: bool
  thinkingBlockIndex :: "int option"
  textBlockStarted :: bool
  textBlockClosed :: bool
  textBlockIndex :: "int option"
  toolCalls :: "(int \<times> tool_info) list"

text \<open>
  A fresh state: nothing sent, no block open, no tool call recorded.  The
  remaining fields are not read before the first chunk has set them.
\<close>

definition fresh :: "oc_state \<Rightarrow> bool" where
  "fresh st \<longleftrightarrow> \<not> messageStartSent st \<and> \<not> thinkingBlockStarted st
     \<and> \<not> textBlockStarted st \<and> \<not> textBlockClosed st \<and> toolCalls st = []"

subsection \<open>The translator\<close>

definition CLAUDE_OAUTH_TOOL_PREFIX :: string where
  "CLAUDE_OAUTH_TOOL_PREFIX = ''proxy_''"

text \<open>Each helper takes the state and the events pushed so far and returns both.\<close>

definition stopThinkingBlock :: "oc_state \<times> claude_event list \<Rightarrow> oc_state \<times> claude_event list" where
  "stopThinkingBlock sr = (case sr of (st, results) \<Rightarrow>
     if \<not> thinkingBlockStarted st then (st, results)
     else (st\<lparr>thinkingBlockStarted := False\<rparr>,
           results @ [ContentBlockStop (thinkingBlockIndex st)]))"

definition stopTextBlock :: "oc_state \<times> claude_event list \<Rightarrow> oc_state \<times> claude_event list" where
  "stopTextBlock sr = (case sr of (st, results) \<Rightarrow>
     if \<not> textBlockStarted st \<or> textBlockClosed st then (st, results)
     else (st\<lparr>textBlockClosed := True, textBlockStarted := False\<rparr>,
           results @ [ContentBlockStop (textBlockIndex st)]))"

definition convertFinishReason :: "string \<Rightarrow> string" where
  "convertFinishReason reason =
     (if reason = ''stop'' then ''end_turn''
      else if reason = ''length'' then ''max_tokens''
      else if reason = ''tool_calls'' then ''tool_use''
      else ''end_turn'')"

text \<open>
  \<^verbatim>\<open>Date.now()\<close> is read up to twice while the message id is chosen; the two
  readings, as decimal strings, are the parameters \<open>now1\<close> and \<open>now2\<close>.
\<close>

definition pick_message_id :: "string \<Rightarrow> string \<Rightarrow> oa_chunk \<Rightarrow> string option" where
  "pick_message_id now1 now2 chunk =
     (let mid = or_str (map_option (remove_first ''chatcmpl-'') (chunk_id chunk))
                       (Some (''msg_'' @ now1))
      in if \<not> truthy_str mid \<or> mid = Some ''chat'' \<or> length (the_default [] mid) < 8
         then or_str (Option.bind (chunk_extend_fields chunk) requestId)
                (or_str (Option.bind (chunk_extend_fields chunk) traceId)
                   (Some (''msg_'' @ now2)))
         else mid)"

definition send_message_start ::
  "string \<Rightarrow> string \<Rightarrow> oa_chunk \<Rightarrow> oc_state \<times> claude_event list \<Rightarrow> oc_state \<times> claude_event list" where
  "send_message_start now1 now2 chunk sr = (case sr of (st, results) \<Rightarrow>
     if \<not> messageStartSent st then
       (let mid = pick_message_id now1 now2 chunk;
            mdl = the_default ''unknown'' (or_str (chunk_model chunk) (Some ''unknown''))
        in (st\<lparr>messageStartSent := True, messageId := mid, model := Some mdl,
                nextBlockIndex := 0\<rparr>,
            results @ [MessageStart mid mdl]))
     else (st, results))"

definition handle_reasoning :: "oa_delta option \<Rightarrow> oc_state \<times> claude_event list \<Rightarrow> oc_state \<times> claude_event list" where
  "handle_reasoning d sr =
     (let reasoningContent = or_str (Option.bind d reasoning_content) (Option.bind d reasoning)
      in if truthy_str reasoningContent then
           (case stopTextBlock sr of (st1, r1) \<Rightarrow>
              (case (if \<not> thinkingBlockStarted st1
                     then (st1\<lparr>thinkingBlockIndex := Some (nextBlockIndex st1),
                               nextBlockIndex := nextBlockIndex st1 + 1,
                               thinkingBlockStarted := True\<rparr>,
                           r1 @ [ContentBlockStart (Some (nextBlockIndex st1)) (ThinkingBlock [])])
                     else (st1, r1)) of (st2, r2) \<Rightarrow>
                 (st2, r2 @ [ContentBlockDelta (thinkingBlockIndex st2)
                               (ThinkingDelta (the_default [] reasoningContent))])))
         else sr)"

definition handle_content :: "oa_delta option \<Rightarrow> oc_state \<times> claude_event list \<Rightarrow> oc_state \<times> claude_event list" where
  "handle_content d sr =
     (let c = Option.bind d content
      in if truthy_str c then
           (case stopThinkingBlock sr of (st1, r1) \<Rightarrow>
              (case (if \<not> textBlockStarted st1
                     then (st1\<lparr>textBlockIndex := Some (nextBlockIndex st1),
                               nextBlockIndex := nextBlockIndex st1 + 1,
                               textBlockStarted := True,
                               textBlockClosed := False\<rparr>,
                           r1 @ [ContentBlockStart (Some (nextBlockIndex st1)) (TextBlock [])])
                     else (st1, r1)) of (st2, r2) \<Rightarrow>
                 (st2, r2 @ [ContentBlockDelta (textBlockIndex st2)
                               (TextDelta (the_default [] c))])))
         else sr)"

text \<open>The body of the loop over \<^verbatim>\<open>delta.tool_calls\<close>, in two parts as in the source.\<close>

definition tool_call_open :: "tool_call_delta \<Rightarrow> oc_state \<times> claude_event list \<Rightarrow> oc_state \<times> claude_event list" where
  "tool_call_open tc sr =
     (let idx = the_default 0 (tc_index tc)
      in if truthy_str (tc_id tc) then
           (case stopTextBlock (stopThinkingBlock sr) of (st1, r1) \<Rightarrow>
              (let toolBlockIndex = nextBlockIndex st1;
                   nm = the_default []
                          (or_str (Option.bind (tc_function tc) fn_name) (Some []));
                   toolName = (if prefix CLAUDE_OAUTH_TOOL_PREFIX nm
                               then drop (length CLAUDE_OAUTH_TOOL_PREFIX) nm else nm);
                   tid = the_default [] (tc_id tc)
               in (st1\<lparr>nextBlockIndex := toolBlockIndex + 1,
                       toolCalls := map_set idx
                          \<lparr>ti_id = tid, ti_name = nm, ti_blockIndex = toolBlockIndex\<rparr>
                          (toolCalls st1)\<rparr>,
                   r1 @ [ContentBlockStart (Some toolBlockIndex) (ToolUseBlock tid toolName)])))
         else sr)"

definition tool_call_arguments :: "tool_call_delta \<Rightarrow> oc_state \<times> claude_event list \<Rightarrow> oc_state \<times> claude_event list" where
  "tool_call_arguments tc sr = (case sr of (st, results) \<Rightarrow>
     (let idx = the_default 0 (tc_index tc);
          args = Option.bind (tc_function tc) fn_arguments
      in if truthy_str args then
           (case map_get (toolCalls st) idx of
              Some toolInfo \<Rightarrow>
                (st, results @ [ContentBlockDelta (Some (ti_blockIndex toolInfo))
                                  (InputJsonDelta (the_default [] args))])
            | None \<Rightarrow> (st, results))
         else (st, results)))"

definition handle_tool_call :: "tool_call_delta \<Rightarrow> oc_state \<times> claude_event list \<Rightarrow> oc_state \<times> claude_event list" where
  "handle_tool_call tc sr = tool_call_arguments tc (tool_call_open tc sr)"

definition handle_tool_calls :: "oa_delta option \<Rightarrow> oc_state \<times> claude_event list \<Rightarrow> oc_state \<times> claude_event list" where
  "handle_tool_calls d sr =
     (case Option.bind d tool_calls of
        None \<Rightarrow> sr
      | Some tcs \<Rightarrow> foldl (\<lambda>acc tc. handle_tool_call tc acc) sr tcs)"

definition handle_finish :: "oa_choice \<Rightarrow> oc_state \<times> claude_event list \<Rightarrow> oc_state \<times> claude_event list" where
  "handle_finish choice sr =
     (if truthy_str (finish_reason choice) then
        (case stopTextBlock (stopThinkingBlock sr) of (st1, r1) \<Rightarrow>
           (st1, r1 @ map (\<lambda>(k, toolInfo). ContentBlockStop (Some (ti_blockIndex toolInfo)))
                        (toolCalls st1)
                    @ [MessageDelta (convertFinishReason (the_default [] (finish_reason choice))),
                       MessageStop]))
      else sr)"

text \<open>
  \<^verbatim>\<open>openaiToClaudeResponse(chunk, state)\<close>: the result is the list of events, or
  \<open>None\<close> for \<^verbatim>\<open>null\<close>, together with the state after the call.
\<close>

definition openaiToClaudeResponse ::
  "string \<Rightarrow> string \<Rightarrow> oa_chunk option \<Rightarrow> oc_state \<Rightarrow> claude_event list option \<times> oc_state" where
  "openaiToClaudeResponse now1 now2 chunk st =
     (case chunk of
        None \<Rightarrow> (None, st)
      | Some ch \<Rightarrow>
         (case choices ch of
            None \<Rightarrow> (None, st)
          | Some [] \<Rightarrow> (None, st)
          | Some (choice # rest) \<Rightarrow>
             (case handle_finish choice
                     (handle_tool_calls (delta choice)
                        (handle_content (delta choice)
                           (handle_reasoning (delta choice)
                              (send_message_start now1 now2 ch (st, []))))) of
                (st', results) \<Rightarrow>
                  (if results \<noteq> [] then Some results else None, st'))))"

text \<open>
  A whole stream: the chunks are translated one after the other on the same
  state and the events are sent in order; a \<^verbatim>\<open>null\<close> result sends nothing.
\<close>

fun translate_stream ::
  "string \<Rightarrow> string \<Rightarrow> oa_chunk list \<Rightarrow> oc_state \<Rightarrow> claude_event list \<times> oc_state" where
  "translate_stream now1 now2 [] st = ([], st)"
| "translate_stream now1 now2 (ch # chs) st =
     (case openaiToClaudeResponse now1 now2 (Some ch) st of (evs, st1) \<Rightarrow>
        (case translate_stream now1 now2 chs st1 of (rest, st2) \<Rightarrow>
           (the_default [] evs @ rest, st2)))"

subsection \<open>Inputs of the documented scenarios\<close>

text \<open>
  Modelled from the spec: \<^verbatim>\<open>initState\<close> of \<^verbatim>\<open>translator/index.js\<close> is not among the
  sources.  A stream's state is created once per request with nothing sent, no
  block open and an empty tool-call map.
\<close>

definition initState :: oc_state where
  "initState = \<lparr>messageStartSent = False, messageId = None, model = None, nextBlockIndex = 0,
     thinkingBlockStarted = False, thinkingBlockIndex = None, textBlockStarted = False,
     textBlockClosed = False, textBlockIndex = None, toolCalls = []\<rparr>"

text \<open>The chunk \<^verbatim>\<open>{"choices":[{"delta":{"content":"Hel"}}]}\<close>.\<close>

definition scenario_chunk1 :: oa_chunk where
  "scenario_chunk1 = \<lparr>chunk_id = None, chunk_model = None, chunk_extend_fields = None,
     choices = Some [\<lparr>delta = Some \<lparr>reasoning_content = None, reasoning = None,
                                    content = Some ''Hel'', tool_calls = None\<rparr>,
                      finish_reason = None\<rparr>]\<rparr>"

text \<open>The chunk \<^verbatim>\<open>{"choices":[{"delta":{"content":"lo"},"finish_reason":"stop"}]}\<close>.\<close>

definition scenario_chunk2 :: oa_chunk where
  "scenario_chunk2 = \<lparr>chunk_id = None, chunk_model = None, chunk_extend_fields = None,
     choices = Some [\<lparr>delta = Some \<lparr>reasoning_content = None, reasoning = None,
                                    content = Some ''lo'', tool_calls = None\<rparr>,
                      finish_reason = Some ''stop''\<rparr>]\<rparr>"

text \<open>A usage-only final chunk \<^verbatim>\<open>{"choices":[],"usage":{...}}\<close>; the usage field is not read.\<close>

definition usage_only_chunk :: oa_chunk where
  "usage_only_chunk = \<lparr>chunk_id = Some ''chatcmpl-abc12345'', chunk_model = Some ''gpt-4'',
     chunk_extend_fields = None, choices = Some []\<rparr>"

text \<open>An arguments fragment \<^verbatim>\<open>{"index":3,"function":{"arguments":"{\"a\""}}\<close> without an id.\<close>

definition orphan_fragment :: tool_call_delta where
  "orphan_fragment = \<lparr>tc_index = Some 3, tc_id = None,
     tc_function = Some \<lparr>fn_name = None, fn_arguments = Some ''{\"a\"''\<rparr>\<rparr>"

section \<open>Claude to OpenAI: response chunk translator\<close>

subsection \<open>Upstream chunks (Claude message stream)\<close>

record cl_message =
  msg_id :: "string option"
  msg_model :: "string option"

record cl_block =
  cb_type :: "string option"
  cb_id :: "string option"
  cb_name :: "string option"

record cl_delta =
  d_type :: "string option"
  d_text :: "string option"
  d_thinking :: "string option"
  d_partial_json :: "string option"
  d_stop_reason :: "string option"

record cl_chunk =
  c_type :: "string option"
  c_index :: "int option"
  c_message :: "cl_message option"
  c_content_block :: "cl_block option"
  c_delta :: "cl_delta option"

subsection \<open>Client chunks (OpenAI chat-completion stream)\<close>

record out_function =
  of_name :: "string option"
  of_arguments :: string

record out_tool_call =
  otc_index :: int
  otc_id :: "string option"
  otc_type :: "string option"
  otc_function :: out_function

datatype out_delta =
    DeltaRole string
  | DeltaContent string
  | DeltaToolCalls "out_tool_call list"
  | DeltaEmpty

record out_usage =
  prompt_tokens :: int
  completion_tokens :: int
  total_tokens :: int

record oa_out =
  out_id :: string
  out_created :: int
  out_model :: "string option"
  out_delta :: out_delta
  out_finish_reason :: "string option"
  out_usage :: "out_usage option"

subsection \<open>Streaming state\<close>

record cl_usage =
  input_tokens :: "int option"
  output_tokens :: "int option"

record co_state =
  co_messageId :: "string option"
  co_model :: "string option"
  co_toolCallIndex :: int
  co_textBlockStarted :: bool
  co_inThinkingBlock :: bool
  co_currentBlockIndex :: "int option"
  co_thinkingBlockStarted :: bool
  co_toolCalls :: "(int option \<times> out_tool_call) list"
  co_toolNameMap :: "(string \<times> string) list option"
  co_finishReason :: "string option"
  co_finishReasonSent :: bool
  co_usage :: "cl_usage option"

subsection \<open>The translator\<close>

text \<open>
  \<^verbatim>\<open>createChunk\<close>; \<open>now_s\<close> is \<^verbatim>\<open>Math.floor(Date.now() / 1000)\<close>.  The message
  id of the state is \<^verbatim>\<open>null\<close> until \<^verbatim>\<open>message_start\<close> sets it; the template literal
  renders that as \<^verbatim>\<open>null\<close>.
\<close>

definition createChunk :: "int \<Rightarrow> co_state \<Rightarrow> out_delta \<Rightarrow> string option \<Rightarrow> oa_out" where
  "createChunk now_s st d finishReason =
     \<lparr>out_id = ''chatcmpl-'' @ the_default ''null'' (co_messageId st),
      out_created = now_s,
      out_model = co_model st,
      out_delta = d,
      out_finish_reason = finishReason,
      out_usage = None\<rparr>"

definition convertStopReason :: "string \<Rightarrow> string" where
  "convertStopReason reason =
     (if reason = ''end_turn'' then ''stop''
      else if reason = ''max_tokens'' then ''length''
      else if reason = ''tool_use'' then ''tool_calls''
      else if reason = ''stop_sequence'' then ''stop''
      else ''stop'')"

definition on_message_start :: "string \<Rightarrow> int \<Rightarrow> cl_chunk \<Rightarrow> co_state \<Rightarrow> oa_out list \<times> co_state" where
  "on_message_start now_ms now_s chunk st =
     (let st1 = st\<lparr>co_messageId := or_str (Option.bind (c_message chunk) msg_id)
                                          (Some (''msg_'' @ now_ms)),
                    co_model := Option.bind (c_message chunk) msg_model,
                    co_toolCallIndex := 0\<rparr>
      in ([createChunk now_s st1 (DeltaRole ''assistant'') None], st1))"

definition on_content_block_start :: "int \<Rightarrow> cl_chunk \<Rightarrow> co_state \<Rightarrow> oa_out list \<times> co_state" where
  "on_content_block_start now_s chunk st =
     (let btype = Option.bind (c_content_block chunk) cb_type
      in if btype = Some ''text'' then ([], st\<lparr>co_textBlockStarted := True\<rparr>)
         else if btype = Some ''thinking'' then
           (let st1 = st\<lparr>co_inThinkingBlock := True, co_currentBlockIndex := c_index chunk\<rparr>
            in ([createChunk now_s st1 (DeltaContent ''<think>'') None], st1))
         else if btype = Some ''tool_use'' then
           (let bname = Option.bind (c_content_block chunk) cb_name;
                mapped = (case co_toolNameMap st of
                            None \<Rightarrow> None
                          | Some m \<Rightarrow> (case bname of None \<Rightarrow> None | Some n \<Rightarrow> map_get m n));
                toolCall = \<lparr>otc_index = co_toolCallIndex st,
                            otc_id = Option.bind (c_content_block chunk) cb_id,
                            otc_type = Some ''function'',
                            otc_function = \<lparr>of_name = or_str mapped bname, of_arguments = []\<rparr>\<rparr>;
                st1 = st\<lparr>co_toolCallIndex := co_toolCallIndex st + 1,
                         co_toolCalls := map_set (c_index chunk) toolCall (co_toolCalls st)\<rparr>
            in ([createChunk now_s st1 (DeltaToolCalls [toolCall]) None], st1))
         else ([], st))"

definition on_content_block_delta :: "int \<Rightarrow> cl_chunk \<Rightarrow> co_state \<Rightarrow> oa_out list \<times> co_state" where
  "on_content_block_delta now_s chunk st =
     (let dtype = Option.bind (c_delta chunk) d_type;
          txt = Option.bind (c_delta chunk) d_text;
          thk = Option.bind (c_delta chunk) d_thinking;
          pj = Option.bind (c_delta chunk) d_partial_json
      in if dtype = Some ''text_delta'' \<and> truthy_str txt then
           ([createChunk now_s st (DeltaContent (the_default [] txt)) None], st)
         else if dtype = Some ''thinking_delta'' \<and> truthy_str thk then
           ([createChunk now_s st (DeltaContent (the_default [] thk)) None], st)
         else if dtype = Some ''input_json_delta'' \<and> truthy_str pj then
           (case map_get (co_toolCalls st) (c_index chunk) of
              Some toolCall \<Rightarrow>
                (let grown = toolCall\<lparr>otc_function :=
                       (otc_function toolCall)\<lparr>of_arguments :=
                          of_arguments (otc_function toolCall) @ the_default [] pj\<rparr>\<rparr>
                 in ([createChunk now_s st
                        (DeltaToolCalls
                           [\<lparr>otc_index = otc_index toolCall, otc_id = otc_id toolCall,
                             otc_type = None,
                             otc_function = \<lparr>of_name = None,
                                             of_arguments = the_default [] pj\<rparr>\<rparr>]) None],
                     st\<lparr>co_toolCalls := map_set (c_index chunk) grown (co_toolCalls st)\<rparr>))
            | None \<Rightarrow> ([], st))
         else ([], st))"

definition on_content_block_stop :: "int \<Rightarrow> cl_chunk \<Rightarrow> co_state \<Rightarrow> oa_out list \<times> co_state" where
  "on_content_block_stop now_s chunk st =
     (case (if co_inThinkingBlock st \<and> c_index chunk = co_currentBlockIndex st
            then ([createChunk now_s st (DeltaContent ''</think>'') None],
                  st\<lparr>co_inThinkingBlock := False\<rparr>)
            else ([], st)) of
        (results, st1) \<Rightarrow>
          (results, st1\<lparr>co_textBlockStarted := False, co_thinkingBlockStarted := False\<rparr>))"

definition on_message_delta :: "int \<Rightarrow> cl_chunk \<Rightarrow> co_state \<Rightarrow> oa_out list \<times> co_state" where
  "on_message_delta now_s chunk st =
     (let sr = Option.bind (c_delta chunk) d_stop_reason
      in if truthy_str sr then
           (let st1 = st\<lparr>co_finishReason := Some (convertStopReason (the_default [] sr))\<rparr>
            in ([createChunk now_s st1 DeltaEmpty (co_finishReason st1)],
                st1\<lparr>co_finishReasonSent := True\<rparr>))
         else ([], st))"

definition on_message_stop :: "int \<Rightarrow> co_state \<Rightarrow> oa_out list \<times> co_state" where
  "on_message_stop now_s st =
     (if \<not> co_finishReasonSent st then
        (let finishReason = or_str (co_finishReason st)
                (Some (if co_toolCalls st \<noteq> [] then ''tool_calls'' else ''stop''));
             usageObj = (case co_usage st of
                 None \<Rightarrow> None
               | Some u \<Rightarrow>
                  (let i = (case input_tokens u of Some n \<Rightarrow> n | None \<Rightarrow> 0);
                       out = (case output_tokens u of Some n \<Rightarrow> n | None \<Rightarrow> 0)
                   in Some \<lparr>prompt_tokens = i, completion_tokens = out,
                            total_tokens = i + out\<rparr>))
         in ([(createChunk now_s st DeltaEmpty finishReason)\<lparr>out_usage := usageObj\<rparr>],
             st\<lparr>co_finishReasonSent := True\<rparr>))
      else ([], st))"

text \<open>
  \<^verbatim>\<open>claudeToOpenAIResponse(chunk, state)\<close>; \<open>now_ms\<close> is the decimal rendering of
  \<^verbatim>\<open>Date.now()\<close>.  An empty result list is returned as \<^verbatim>\<open>null\<close>.
\<close>

definition claudeToOpenAIResponse ::
  "string \<Rightarrow> int \<Rightarrow> cl_chunk option \<Rightarrow> co_state \<Rightarrow> oa_out list option \<times> co_state" where
  "claudeToOpenAIResponse now_ms now_s chunk st =
     (case chunk of
        None \<Rightarrow> (None, st)
      | Some ch \<Rightarrow>
         (case (if c_type ch = Some ''message_start'' then on_message_start now_ms now_s ch st
                else if c_type ch = Some ''content_block_start'' then on_content_block_start now_s ch st
                else if c_type ch = Some ''content_block_delta'' then on_content_block_delta now_s ch st
                else if c_type ch = Some ''content_block_stop'' then on_content_block_stop now_s ch st
                else if c_type ch = Some ''message_delta'' then on_message_delta now_s ch st
                else if c_type ch = Some ''message_stop'' then on_message_stop now_s st
                else ([], st)) of
            (results, st') \<Rightarrow> (if results \<noteq> [] then Some results else None, st')))"

subsection \<open>Inputs of the documented scenarios\<close>

text \<open>
  Modelled from the spec: the initial state of this translator, also made by
  \<^verbatim>\<open>initState\<close>, with an empty tool-call map and nothing sent.
\<close>

definition co_initState :: co_state where
  "co_initState = \<lparr>co_messageId = None, co_model = None, co_toolCallIndex = 0,
     co_textBlockStarted = False, co_inThinkingBlock = False, co_currentBlockIndex = None,
     co_thinkingBlockStarted = False, co_toolCalls = [], co_toolNameMap = None,
     co_finishReason = None, co_finishReasonSent = False, co_usage = None\<rparr>"

text \<open>
  The event \<^verbatim>\<open>{"type":"content_block_delta","index":2,"delta":{"type":"input_json_delta","partial_json":"{\"a\""}}\<close>.
\<close>

definition orphan_json_delta :: cl_chunk where
  "orphan_json_delta = \<lparr>c_type = Some ''content_block_delta'', c_index = Some 2,
     c_message = None, c_content_block = None,
     c_delta = Some \<lparr>d_type = Some ''input_json_delta'', d_text = None, d_thinking = None,
                      d_partial_json = Some ''{\"a\"'', d_stop_reason = None\<rparr>\<rparr>"

section \<open>Claude to OpenAI: request translator\<close>

subsection \<open>Client request (Claude messages API)\<close>

text \<open>
  \<^verbatim>\<open>JSON.stringify\<close> is a platform function; where the translator stringifies a
  value of the request, the value is carried already rendered (a \<^typ>\<open>string\<close>).
\<close>

record image_source =
  src_type :: "string option"
  src_media_type :: "string option"
  src_data :: "string option"

record tr_item =
  tri_type :: "string option"
  tri_text :: "string option"

datatype tr_content =
    TRString string
  | TRArray "tr_item list" string
  | TRObject string
  | TRNone

datatype req_block =
    BText "string option"
  | BImage "image_source option"
  | BToolUse "string option" "string option" string
  | BToolResult "string option" tr_content
  | BOther

datatype cl_content =
    CString string
  | CArray "req_block list"
  | COther

record cl_req_message =
  rm_role :: "string option"
  rm_content :: cl_content

datatype cl_system =
    SysString string
  | SysArray "string option list"

record cl_body =
  b_system :: "cl_system option"
  b_messages :: "cl_req_message list option"

subsection \<open>Upstream request (OpenAI chat completions)\<close>

datatype oa_part =
    PText "string option"
  | PImageUrl string

datatype oa_content =
    OCString string
  | OCParts "oa_part list"

record oa_call =
  call_id :: "string option"
  call_name :: "string option"
  call_arguments :: string

record oa_message =
  m_role :: string
  m_content :: "oa_content option"
  m_tool_calls :: "oa_call list option"
  m_tool_call_id :: "string option"

subsection \<open>Converting one message\<close>

text \<open>\<^verbatim>\<open>xs.join(sep)\<close> on strings.\<close>

fun join :: "string \<Rightarrow> string list \<Rightarrow> string" where
  "join sep [] = []"
| "join sep [x] = x"
| "join sep (x # y # ys) = x @ sep @ join sep (y # ys)"

definition tool_result_content :: "tr_content \<Rightarrow> string" where
  "tool_result_content c =
     (case c of
        TRString s \<Rightarrow> s
      | TRArray items rendered \<Rightarrow>
          (let joined = join ''\<newline>''
                 (map (\<lambda>i. the_default [] (tri_text i))
                    (filter (\<lambda>i. tri_type i = Some ''text'') items))
           in if joined \<noteq> [] then joined else rendered)
      | TRObject rendered \<Rightarrow> rendered
      | TRNone \<Rightarrow> [])"

text \<open>
  The loop over the content blocks fills three lists: \<open>parts\<close>, the tool calls
  (\<open>calls\<close>) and \<open>toolResults\<close>.
\<close>

fun collect_blocks ::
  "req_block list \<Rightarrow> oa_part list \<times> oa_call list \<times> oa_message list
     \<Rightarrow> oa_part list \<times> oa_call list \<times> oa_message list" where
  "collect_blocks [] acc = acc"
| "collect_blocks (b # bs) (parts, calls, toolResults) =
     collect_blocks bs
       (case b of
          BText t \<Rightarrow> (parts @ [PText t], calls, toolResults)
        | BImage src \<Rightarrow>
            (if Option.bind src src_type = Some ''base64'' then
               (parts @ [PImageUrl (''data:''
                    @ the_default ''undefined'' (Option.bind src src_media_type)
                    @ '';base64,''
                    @ the_default ''undefined'' (Option.bind src src_data))],
                calls, toolResults)
             else (parts, calls, toolResults))
        | BToolUse i n rendered \<Rightarrow>
            (parts,
             calls @ [\<lparr>call_id = i, call_name = n, call_arguments = rendered\<rparr>],
             toolResults)
        | BToolResult i c \<Rightarrow>
            (parts, calls,
             toolResults @ [\<lparr>m_role = ''tool'', m_content = Some (OCString (tool_result_content c)),
                              m_tool_calls = None, m_tool_call_id = i\<rparr>])
        | BOther \<Rightarrow> (parts, calls, toolResults))"

text \<open>
  \<^verbatim>\<open>parts.length === 1 && parts[0].type === "text" ? parts[0].text : parts\<close>;
  the text of the single part may itself be missing.
\<close>

definition parts_content :: "oa_part list \<Rightarrow> oa_content option" where
  "parts_content parts =
     (case parts of
        [PText t] \<Rightarrow> map_option OCString t
      | _ \<Rightarrow> Some (OCParts parts))"

datatype converted = ConvNull | ConvOne oa_message | ConvMany "oa_message list"

definition convertClaudeMessage :: "cl_req_message \<Rightarrow> converted" where
  "convertClaudeMessage msg =
     (let role = (if rm_role msg = Some ''user'' \<or> rm_role msg = Some ''tool''
                  then ''user'' else ''assistant'')
      in case rm_content msg of
           CString s \<Rightarrow>
             ConvOne \<lparr>m_role = role, m_content = Some (OCString s),
                      m_tool_calls = None, m_tool_call_id = None\<rparr>
         | CArray blocks \<Rightarrow>
             (case collect_blocks blocks ([], [], []) of
                (parts, calls, toolResults) \<Rightarrow>
                  if toolResults \<noteq> [] then
                    (if parts \<noteq> [] then
                       ConvMany (toolResults @
                         [\<lparr>m_role = ''user'', m_content = parts_content parts,
                           m_tool_calls = None, m_tool_call_id = None\<rparr>])
                     else ConvMany toolResults)
                  else if calls \<noteq> [] then
                    ConvOne \<lparr>m_role = ''assistant'',
                             m_content = (if parts \<noteq> [] then parts_content parts else None),
                             m_tool_calls = Some calls, m_tool_call_id = None\<rparr>
                  else if parts \<noteq> [] then
                    ConvOne \<lparr>m_role = role, m_content = parts_content parts,
                             m_tool_calls = None, m_tool_call_id = None\<rparr>
                  else if blocks = [] then
                    ConvOne \<lparr>m_role = role, m_content = Some (OCString []),
                             m_tool_calls = None, m_tool_call_id = None\<rparr>
                  else ConvNull)
         | COther \<Rightarrow> ConvNull)"

subsection \<open>Synthesizing missing tool responses\<close>

definition carries_tool_calls :: "oa_message \<Rightarrow> bool" where
  "carries_tool_calls msg \<longleftrightarrow>
     m_role msg = ''assistant'' \<and>
     (case m_tool_calls msg of None \<Rightarrow> False | Some tcs \<Rightarrow> length tcs > 0)"

definition toolCallIds :: "oa_message \<Rightarrow> string option list" where
  "toolCallIds msg = map call_id (the_default [] (m_tool_calls msg))"

text \<open>The test of the inner loop: a tool message that carries a tool-call id.\<close>

definition is_response :: "oa_message \<Rightarrow> bool" where
  "is_response nextMsg \<longleftrightarrow> m_role nextMsg = ''tool'' \<and> truthy_str (m_tool_call_id nextMsg)"

text \<open>
  The inner loop from position \<open>j\<close>: it adds the ids of the tool messages that follow
  to \<open>respondedIds\<close> and moves \<open>insertPosition\<close> behind each of them, and stops at the
  first message that is not such a response.
\<close>

function scan_responses ::
  "oa_message list \<Rightarrow> nat \<Rightarrow> string set \<times> nat \<Rightarrow> string set \<times> nat" where
  "scan_responses messages j (respondedIds, insertPosition) =
     (if j < length messages then
        (if is_response (messages ! j) then
           scan_responses messages (j + 1)
             (insert (the_default [] (m_tool_call_id (messages ! j))) respondedIds, j + 1)
         else (respondedIds, insertPosition))
      else (respondedIds, insertPosition))"
  by pat_completeness auto
termination
  by (relation "measure (\<lambda>(messages, j, acc). length messages - j)") auto

definition missing_response :: "string option \<Rightarrow> oa_message" where
  "missing_response i =
     \<lparr>m_role = ''tool'', m_content = Some (OCString ''[No response received]''),
      m_tool_calls = None, m_tool_call_id = i\<rparr>"

definition is_missing :: "string set \<Rightarrow> string option \<Rightarrow> bool" where
  "is_missing respondedIds i \<longleftrightarrow> (case i of None \<Rightarrow> True | Some s \<Rightarrow> s \<notin> respondedIds)"

text \<open>\<^verbatim>\<open>messages.splice(pos, 0, ...items)\<close>.\<close>

definition splice_in :: "nat \<Rightarrow> 'a list \<Rightarrow> 'a list \<Rightarrow> 'a list" where
  "splice_in pos items xs = take pos xs @ items @ drop pos xs"

lemma scan_responses_pos:
  "insertPosition \<le> length messages \<Longrightarrow> i < insertPosition \<Longrightarrow> i < j \<Longrightarrow>
   snd (scan_responses messages j (respondedIds, insertPosition)) \<le> length messages
   \<and> i < snd (scan_responses messages j (respondedIds, insertPosition))"
proof (induction messages j "(respondedIds, insertPosition)"
        arbitrary: respondedIds insertPosition rule: scan_responses.induct)
  case (1 messages j respondedIds insertPosition)
  show ?case
  proof (cases "j < length messages \<and> is_response (messages ! j)")
    case True
    then have "snd (scan_responses messages (j + 1)
                 (insert (the_default [] (m_tool_call_id (messages ! j))) respondedIds, j + 1))
               \<le> length messages
             \<and> i < snd (scan_responses messages (j + 1)
                 (insert (the_default [] (m_tool_call_id (messages ! j))) respondedIds, j + 1))"
      using "1.prems" by (intro "1.hyps") auto
    with True show ?thesis by simp
  next
    case False
    with "1.prems" show ?thesis by auto
  qed
qed

text \<open>
  The outer loop of \<^verbatim>\<open>fixMissingToolResponses\<close> at index \<open>i\<close>.  After an insertion
  the index moves behind the inserted responses.
\<close>

function fix_loop :: "nat \<Rightarrow> oa_message list \<Rightarrow> oa_message list" where
  "fix_loop i messages =
     (if i < length messages then
        (let msg = messages ! i in
         if carries_tool_calls msg then
           (case scan_responses messages (i + 1) ({}, i + 1) of
              (respondedIds, insertPosition) \<Rightarrow>
                (let missingIds = filter (is_missing respondedIds) (toolCallIds msg) in
                 if length missingIds > 0 then
                   (let missingResponses = map missing_response missingIds in
                    fix_loop (insertPosition + length missingResponses - 1 + 1)
                      (splice_in insertPosition missingResponses messages))
                 else fix_loop (i + 1) messages))
         else fix_loop (i + 1) messages)
      else messages)"
  by pat_completeness auto
termination
proof -
  have pos: "p \<le> length messages \<and> i < p"
    if "(r, p) = scan_responses messages (Suc i) ({}, Suc i)" "i < length messages"
    for r p messages i
  proof -
    have "p = snd (scan_responses messages (Suc i) ({}, Suc i))"
      using that(1) by (metis snd_conv)
    then show ?thesis
      using scan_responses_pos [of "Suc i" messages i "Suc i" "{}"] that(2) by simp
  qed
  show ?thesis
    by (relation "measure (\<lambda>(i, messages). length messages - i)")
       (auto simp del: scan_responses.simps simp: splice_in_def dest!: pos)
qed

definition fixMissingToolResponses :: "oa_message list \<Rightarrow> oa_message list" where
  "fixMissingToolResponses messages = fix_loop 0 messages"

subsection \<open>The messages of the translated request\<close>

definition system_messages :: "cl_body \<Rightarrow> oa_message list" where
  "system_messages body =
     (case b_system body of
        None \<Rightarrow> []
      | Some sys \<Rightarrow>
          if sys = SysString [] then []
          else
            (let systemContent = (case sys of
                    SysArray ts \<Rightarrow> join ''\<newline>'' (map (the_default []) ts)
                  | SysString s \<Rightarrow> s)
             in if systemContent \<noteq> [] then
                  [\<lparr>m_role = ''system'', m_content = Some (OCString systemContent),
                    m_tool_calls = None, m_tool_call_id = None\<rparr>]
                else []))"

fun push_converted :: "cl_req_message list \<Rightarrow> oa_message list \<Rightarrow> oa_message list" where
  "push_converted [] messages = messages"
| "push_converted (msg # rest) messages =
     push_converted rest
       (case convertClaudeMessage msg of
          ConvNull \<Rightarrow> messages
        | ConvOne m \<Rightarrow> messages @ [m]
        | ConvMany ms \<Rightarrow> messages @ ms)"

text \<open>
  The \<open>messages\<close> field of the result of \<^verbatim>\<open>claudeToOpenAIRequest\<close>: the system
  message, the converted messages, then the pass that adds missing tool responses.
\<close>

definition claudeToOpenAIRequest_messages :: "cl_body \<Rightarrow> oa_message list" where
  "claudeToOpenAIRequest_messages body =
     fixMissingToolResponses
       (push_converted (the_default [] (b_messages body)) (system_messages body))"

subsection \<open>The pass in words\<close>

text \<open>
  The pass as the code does it.  For each assistant message with tool calls: keep the run
  of tool messages that carry a call id (\<open>is_response\<close>) immediately behind it, then add
  one placeholder response for every call id that run does not answer, then go on behind
  the run.  A tool message without a call id ends the run.
\<close>

function fix_amended :: "oa_message list \<Rightarrow> oa_message list" where
  "fix_amended [] = []"
| "fix_amended (msg # rest) =
     (if carries_tool_calls msg then
        (let run = takeWhile is_response rest;
             answered = {s. \<exists>r \<in> set run. m_tool_call_id r = Some s}
         in msg # run
              @ map missing_response (filter (is_missing answered) (toolCallIds msg))
              @ fix_amended (dropWhile is_response rest))
      else msg # fix_amended rest)"
  by pat_completeness auto
termination
  by (relation "measure length") (auto simp: length_dropWhile_le less_Suc_eq_le)

text \<open>
  The pass as the claim words it: the run is the run of messages of role \<open>tool\<close>, with
  or without a call id, and a call id is answered when a message of that run carries it.
\<close>

function fix_claim :: "oa_message list \<Rightarrow> oa_message list" where
  "fix_claim [] = []"
| "fix_claim (msg # rest) =
     (if carries_tool_calls msg then
        (let run = takeWhile (\<lambda>m. m_role m = ''tool'') rest
         in msg # run
              @ map missing_response
                  (filter (\<lambda>i. i \<notin> set (map m_tool_call_id run)) (toolCallIds msg))
              @ fix_claim (dropWhile (\<lambda>m. m_role m = ''tool'') rest))
      else msg # fix_claim rest)"
  by pat_completeness auto
termination
  by (relation "measure length") (auto simp: length_dropWhile_le less_Suc_eq_le)

text \<open>Every call id of every assistant message is answered in the run of tool messages behind it.\<close>

fun all_answered :: "oa_message list \<Rightarrow> bool" where
  "all_answered [] = True"
| "all_answered (msg # rest) =
     ((carries_tool_calls msg \<longrightarrow>
         (\<forall>i \<in> set (toolCallIds msg).
            \<exists>r \<in> set (takeWhile (\<lambda>m. m_role m = ''tool'') rest). m_tool_call_id r = i))
      \<and> all_answered rest)"

subsection \<open>Input of the documented scenario\<close>

text \<open>
  A request with a system prompt in which the assistant called two tools, \<open>t1\<close> and
  \<open>t2\<close>, and the client answered only \<open>t1\<close>.
\<close>

definition example_body :: cl_body where
  "example_body = \<lparr>b_system = Some (SysString ''be brief''),
     b_messages = Some
       [\<lparr>rm_role = Some ''user'', rm_content = CString ''hi''\<rparr>,
        \<lparr>rm_role = Some ''assistant'',
          rm_content = CArray [BToolUse (Some ''t1'') (Some ''ls'') ''{}'',
                               BToolUse (Some ''t2'') (Some ''pwd'') ''{}'']\<rparr>,
        \<lparr>rm_role = Some ''user'',
          rm_content = CArray [BToolResult (Some ''t1'') (TRString ''a.txt'')]\<rparr>,
        \<lparr>rm_role = Some ''user'', rm_content = CString ''thanks''\<rparr>]\<rparr>"

text \<open>
  A request in which the assistant called \<open>t1\<close> and \<open>t2\<close> and the client sent two
  tool results, the first without a \<^verbatim>\<open>tool_use_id\<close>, the second for \<open>t1\<close>.
\<close>

definition idless_body :: cl_body where
  "idless_body = \<lparr>b_system = None,
     b_messages = Some
       [\<lparr>rm_role = Some ''assistant'',
          rm_content = CArray [BToolUse (Some ''t1'') (Some ''ls'') ''{}'',
                               BToolUse (Some ''t2'') (Some ''pwd'') ''{}'']\<rparr>,
        \<lparr>rm_role = Some ''user'',
          rm_content = CArray [BToolResult None (TRString ''x''),
                               BToolResult (Some ''t1'') (TRString ''y'')]\<rparr>]\<rparr>"

section \<open>JSON values\<close>

text \<open>
  A parsed JSON value, with \<^verbatim>\<open>undefined\<close> added for what a property read can give.
  An object keeps its keys in insertion order; JavaScript lists keys that are array
  indices first, and nothing modelled here depends on the order of the keys.  Numbers are
  rationals.
\<close>

datatype json =
    JUndefined
  | JNull
  | JBool bool
  | JNum rat
  | JStr string
  | JArr "json list"
  | JObj "(string \<times> json) list"

fun truthy :: "json \<Rightarrow> bool" where
  "truthy JUndefined = False"
| "truthy JNull = False"
| "truthy (JBool b) = b"
| "truthy (JNum n) = (n \<noteq> 0)"
| "truthy (JStr s) = (s \<noteq> [])"
| "truthy (JArr xs) = True"
| "truthy (JObj kvs) = True"

text \<open>
  \<^verbatim>\<open>v.k\<close> for a name \<open>k\<close> that is neither an index nor \<^verbatim>\<open>length\<close>: only an object
  has such properties.  The modelled code reads a property of a value only behind a
  guard (\<^verbatim>\<open>v && v.k\<close>, \<^verbatim>\<open>v?.k\<close>), so the read never throws.
\<close>

fun jget :: "json \<Rightarrow> string \<Rightarrow> json" where
  "jget (JObj kvs) k = (case map_of kvs k of Some v \<Rightarrow> v | None \<Rightarrow> JUndefined)"
| "jget v k = JUndefined"

definition js_or :: "json \<Rightarrow> json \<Rightarrow> json" where
  "js_or a b = (if truthy a then a else b)"

definition is_object :: "json \<Rightarrow> bool" where
  "is_object v = (case v of JArr xs \<Rightarrow> True | JObj kvs \<Rightarrow> True | _ \<Rightarrow> False)"

text \<open>\<^verbatim>\<open>const { k, ...rest } = obj\<close> and \<^verbatim>\<open>{ ...obj, k: v }\<close> on objects.\<close>

definition obj_without :: "string \<Rightarrow> (string \<times> json) list \<Rightarrow> (string \<times> json) list" where
  "obj_without k kvs = filter (\<lambda>(k', v). k' \<noteq> k) kvs"

definition obj_set :: "string \<Rightarrow> json \<Rightarrow> (string \<times> json) list \<Rightarrow> (string \<times> json) list" where
  "obj_set k v kvs = map_set k v kvs"

section \<open>The SSE stream orchestrator\<close>

subsection \<open>Text\<close>

text \<open>
  Decoded text is a sequence of UTF-16 code units, each a natural number; \<open>js\<close> turns
  an ASCII literal into text.
\<close>

type_synonym utf16 = "nat list"

definition js :: "string \<Rightarrow> utf16" where
  "js s = map of_char s"

text \<open>The code units that \<^verbatim>\<open>String.prototype.trim\<close> removes: white space and line terminators.\<close>

definition is_space :: "nat \<Rightarrow> bool" where
  "is_space c \<longleftrightarrow> c \<in> {9, 10, 11, 12, 13, 32, 160, 5760, 8232, 8233, 8239, 8287, 12288, 65279}
     \<or> (8192 \<le> c \<and> c \<le> 8202)"

definition trim :: "utf16 \<Rightarrow> utf16" where
  "trim t = rev (dropWhile is_space (rev (dropWhile is_space t)))"

text \<open>\<^verbatim>\<open>s.split("\n")\<close>: the pieces between line feeds; there is always at least one piece.\<close>

fun split_nl :: "utf16 \<Rightarrow> utf16 list" where
  "split_nl [] = [[]]"
| "split_nl (c # cs) =
     (if c = 10 then [] # split_nl cs
      else (case split_nl cs of l # ls \<Rightarrow> (c # l) # ls | [] \<Rightarrow> [[c]]))"

subsection \<open>What the orchestrator is given\<close>

text \<open>
  The platform's \<^verbatim>\<open>TextDecoder\<close> in streaming mode consumes the bytes of a chunk one
  after the other and keeps the bytes of an unfinished character in its own state:
  \<open>decode_step\<close> is its transition on one byte (the text it gives out and the state
  it moves to), \<open>decode_end\<close> is the text the final \<^verbatim>\<open>decode()\<close> gives for what is
  still pending, and \<open>decode_init\<close> is the state that call leaves the decoder in, which
  is also the state of a new decoder.  The module has one decoder,
  \<^verbatim>\<open>sharedDecoder\<close>, for all its streams: the state of the decoder is not part of a
  stream, every \<^verbatim>\<open>transform\<close> and every \<^verbatim>\<open>flush\<close> is given the state it finds and
  returns the state it leaves.

  \<open>JSON_parse\<close> is \<^verbatim>\<open>JSON.parse\<close>, with \<open>None\<close> for a thrown error.
  \<open>translateResponse\<close> stands for the dispatch of \<^verbatim>\<open>translator/index.js\<close>, which is not
  among the sources, applied to the two formats of the stream: it is given the parsed
  chunk (or \<^verbatim>\<open>null\<close>) and the state, and returns the client events (or \<^verbatim>\<open>null\<close>) and
  the state; where it throws, the result is \<open>None\<close>.  \<open>claude_client\<close> says whether
  \<^verbatim>\<open>sourceFormat === FORMATS.CLAUDE\<close>.
\<close>

record 's tstate =
  ts_usage :: "json option"
  ts_inner :: 's

record ('d, 's) env =
  decode_step :: "'d \<Rightarrow> 8 word \<Rightarrow> utf16 \<times> 'd"
  decode_end :: "'d \<Rightarrow> utf16"
  decode_init :: 'd
  JSON_parse :: "utf16 \<Rightarrow> json option"
  translateResponse :: "json option \<Rightarrow> 's tstate \<Rightarrow> (json list option \<times> 's tstate) option"
  claude_client :: bool

datatype stream_mode = TRANSLATE | PASSTHROUGH

text \<open>\<^verbatim>\<open>sharedDecoder.decode(chunk, { stream: true })\<close>.\<close>

fun decode :: "('d \<Rightarrow> 8 word \<Rightarrow> utf16 \<times> 'd) \<Rightarrow> 'd \<Rightarrow> 8 word list \<Rightarrow> utf16 \<times> 'd" where
  "decode step ds [] = ([], ds)"
| "decode step ds (b # bs) =
     (case step ds b of (t, ds1) \<Rightarrow>
        (case decode step ds1 bs of (ts, ds2) \<Rightarrow> (t @ ts, ds2)))"

subsection \<open>Usage extraction\<close>

definition extractUsage :: "json \<Rightarrow> json option" where
  "extractUsage chunk =
     (if jget chunk ''type'' = JStr ''message_delta'' \<and> truthy (jget chunk ''usage'') then
        Some (JObj
          [(''prompt_tokens'', js_or (jget (jget chunk ''usage'') ''input_tokens'') (JNum 0)),
           (''completion_tokens'', js_or (jget (jget chunk ''usage'') ''output_tokens'') (JNum 0)),
           (''cache_read_input_tokens'', jget (jget chunk ''usage'') ''cache_read_input_tokens''),
           (''cache_creation_input_tokens'',
              jget (jget chunk ''usage'') ''cache_creation_input_tokens'')])
      else if (jget chunk ''type'' = JStr ''response.completed''
               \<or> jget chunk ''type'' = JStr ''response.done'')
              \<and> truthy (jget (jget chunk ''response'') ''usage'') then
        (let u = jget (jget chunk ''response'') ''usage'' in
         Some (JObj
          [(''prompt_tokens'',
              js_or (jget u ''input_tokens'') (js_or (jget u ''prompt_tokens'') (JNum 0))),
           (''completion_tokens'',
              js_or (jget u ''output_tokens'') (js_or (jget u ''completion_tokens'') (JNum 0))),
           (''cached_tokens'', jget (jget u ''input_tokens_details'') ''cached_tokens''),
           (''reasoning_tokens'', jget (jget u ''output_tokens_details'') ''reasoning_tokens'')]))
      else if jget (jget chunk ''usage'') ''prompt_tokens'' \<noteq> JUndefined then
        (let u = jget chunk ''usage'' in
         Some (JObj
          [(''prompt_tokens'', jget u ''prompt_tokens''),
           (''completion_tokens'', js_or (jget u ''completion_tokens'') (JNum 0)),
           (''cached_tokens'', jget (jget u ''prompt_tokens_details'') ''cached_tokens''),
           (''reasoning_tokens'',
              jget (jget u ''completion_tokens_details'') ''reasoning_tokens'')]))
      else if truthy (jget chunk ''usageMetadata'') then
        (let u = jget chunk ''usageMetadata'' in
         Some (JObj
          [(''prompt_tokens'', js_or (jget u ''promptTokenCount'') (JNum 0)),
           (''completion_tokens'', js_or (jget u ''candidatesTokenCount'') (JNum 0)),
           (''reasoning_tokens'', jget u ''thoughtsTokenCount'')]))
      else None)"

subsection \<open>Parsing a line and framing an event\<close>

text \<open>\<^verbatim>\<open>parseSSELine\<close>; the result \<open>None\<close> is \<^verbatim>\<open>null\<close>.  Code unit 100 is \<open>d\<close>.\<close>

definition parseSSELine :: "(utf16 \<Rightarrow> json option) \<Rightarrow> utf16 \<Rightarrow> json option" where
  "parseSSELine parse line =
     (if line = [] \<or> hd line \<noteq> 100 then None
      else (let data = trim (drop 5 line) in
            if data = js ''[DONE]'' then Some (JObj [(''done'', JBool True)])
            else parse data))"

text \<open>
  What \<^verbatim>\<open>formatSSE\<close> returns, by the branch taken; the JSON text of the payload is left
  to \<^verbatim>\<open>JSON.stringify\<close>.  \<open>DoneRecord\<close> is the record \<^verbatim>\<open>data: [DONE]\<close>.
\<close>

datatype sse_record =
    NullData
  | DoneRecord
  | NamedEvent json json
  | DataRecord json

text \<open>The removal of \<^verbatim>\<open>usage.perf_metrics\<close> when it is \<^verbatim>\<open>null\<close>.\<close>

definition drop_null_perf_metrics :: "json \<Rightarrow> json" where
  "drop_null_perf_metrics data =
     (case data of
        JObj kvs \<Rightarrow>
          (case jget data ''usage'' of
             JObj us \<Rightarrow>
               (if jget (JObj us) ''perf_metrics'' = JNull
                then JObj (obj_set ''usage'' (JObj (obj_without ''perf_metrics'' us)) kvs)
                else data)
           | _ \<Rightarrow> data)
      | _ \<Rightarrow> data)"

definition formatSSE :: "bool \<Rightarrow> json \<Rightarrow> sse_record" where
  "formatSSE claude data =
     (if data = JNull \<or> data = JUndefined then NullData
      else if truthy data \<and> truthy (jget data ''done'') then DoneRecord
      else if truthy data \<and> truthy (jget data ''event'') \<and> truthy (jget data ''data'') then
        NamedEvent (jget data ''event'') (jget data ''data'')
      else if claude \<and> truthy data \<and> truthy (jget data ''type'') then
        NamedEvent (jget data ''type'') (drop_null_perf_metrics data)
      else DataRecord (drop_null_perf_metrics data))"

subsection \<open>The transform\<close>

text \<open>
  What the stream sends on: a framed record in translate mode, a piece of text in
  passthrough mode (\<^verbatim>\<open>sharedEncoder.encode\<close> of it).
\<close>

datatype enqueued = Record sse_record | Raw utf16

text \<open>
  The variables the closure of \<^verbatim>\<open>createSSEStream\<close> holds: the line buffer, the usage
  seen in passthrough mode, and the translator's state.  \<open>s_errored\<close> says that a call of
  \<^verbatim>\<open>transform\<close> has thrown: what that call had enqueued stays enqueued, the rest of
  the call is not run, and the platform calls neither \<^verbatim>\<open>transform\<close> nor \<^verbatim>\<open>flush\<close> on
  the stream again.
\<close>

record 's stream =
  s_buffer :: utf16
  s_usage :: "json option"
  s_state :: "'s tstate"
  s_errored :: bool

definition emit_translated :: "bool \<Rightarrow> json list option \<Rightarrow> enqueued list" where
  "emit_translated claude translated =
     (case translated of
        None \<Rightarrow> []
      | Some items \<Rightarrow> map (\<lambda>item. Record (formatSSE claude item)) items)"

definition starts_with :: "utf16 \<Rightarrow> utf16 \<Rightarrow> bool" where
  "starts_with t p = prefix p t"

definition normalize_data_line :: "utf16 \<Rightarrow> utf16" where
  "normalize_data_line line =
     (if starts_with line (js ''data:'') \<and> \<not> starts_with line (js ''data: '')
      then js ''data: '' @ drop 5 line else line)"

text \<open>
  The body of the loop over the complete lines, for one line.  Only the translator can
  throw here (\<^verbatim>\<open>JSON.parse\<close> is inside a \<^verbatim>\<open>try\<close>); a throw ends the loop, so a line
  that comes after it does nothing.
\<close>

definition process_line ::
  "('d, 's) env \<Rightarrow> stream_mode \<Rightarrow> 's stream \<times> enqueued list \<Rightarrow> utf16
     \<Rightarrow> 's stream \<times> enqueued list" where
  "process_line e mode so line = (case so of (s, out) \<Rightarrow>
     (let trimmed = trim line in
      if s_errored s then (s, out)
      else if mode = PASSTHROUGH then
        (let s1 =
           (if starts_with trimmed (js ''data:'') \<and> trim (drop 5 trimmed) \<noteq> js ''[DONE]'' then
              (case JSON_parse e (trim (drop 5 trimmed)) of
                 None \<Rightarrow> s
               | Some parsed \<Rightarrow>
                   if parsed = JNull then s
                   else (case extractUsage parsed of
                           None \<Rightarrow> s
                         | Some extracted \<Rightarrow> s\<lparr>s_usage := Some extracted\<rparr>))
            else s)
         in (s1, out @ [Raw (normalize_data_line line @ [10])]))
      else if trimmed = [] then (s, out)
      else
        (case parseSSELine (JSON_parse e) trimmed of
           None \<Rightarrow> (s, out)
         | Some parsed \<Rightarrow>
             if \<not> truthy parsed then (s, out)
             else if truthy (jget parsed ''done'') then (s, out @ [Record DoneRecord])
             else
               (let st1 = (case extractUsage parsed of
                             None \<Rightarrow> s_state s
                           | Some extracted \<Rightarrow> (s_state s)\<lparr>ts_usage := Some extracted\<rparr>)
                in case translateResponse e (Some parsed) st1 of
                     None \<Rightarrow> (s\<lparr>s_state := st1, s_errored := True\<rparr>, out)
                   | Some (translated, st2) \<Rightarrow>
                       (s\<lparr>s_state := st2\<rparr>,
                        out @ emit_translated (claude_client e) translated)))))"

text \<open>
  \<^verbatim>\<open>transform\<close> behind the decoder: append the decoded text to the buffer, split at line
  feeds, keep the last piece as the new buffer and run the loop over the complete lines.
\<close>

definition consume ::
  "('d, 's) env \<Rightarrow> stream_mode \<Rightarrow> 's stream \<Rightarrow> utf16 \<Rightarrow> 's stream \<times> enqueued list" where
  "consume e mode s t =
     (let lines = split_nl (s_buffer s @ t)
      in foldl (process_line e mode) (s\<lparr>s_buffer := last lines\<rparr>, []) (butlast lines))"

text \<open>
  \<^verbatim>\<open>transform(chunk, controller)\<close>, given the state \<open>ds\<close> the shared decoder is in: the
  result is the state it leaves the decoder in, the stream, and what was enqueued.
\<close>

definition transform ::
  "('d, 's) env \<Rightarrow> stream_mode \<Rightarrow> 'd \<Rightarrow> 's stream \<Rightarrow> 8 word list
     \<Rightarrow> 'd \<times> 's stream \<times> enqueued list" where
  "transform e mode ds s chunk =
     (case decode (decode_step e) ds chunk of (t, ds1) \<Rightarrow>
        (case consume e mode s t of (s1, out) \<Rightarrow> (ds1, s1, out)))"

subsection \<open>The flush\<close>

text \<open>
  \<^verbatim>\<open>flush(controller)\<close> behind the decoder, given the text \<open>remaining\<close> that the final
  \<^verbatim>\<open>decode()\<close> returned.  The body is inside a \<^verbatim>\<open>try\<close> whose \<^verbatim>\<open>catch\<close> only logs:
  when the translator throws, what was enqueued before stays, nothing more is enqueued,
  and the last component of the result, the error having been caught, is \<open>True\<close>.
\<close>

definition finish ::
  "('d, 's) env \<Rightarrow> stream_mode \<Rightarrow> 's stream \<Rightarrow> utf16 \<Rightarrow> 's stream \<times> enqueued list \<times> bool" where
  "finish e mode s remaining =
     (let buffer = s_buffer s @ remaining;
          s0 = s\<lparr>s_buffer := buffer\<rparr>
      in if mode = PASSTHROUGH then
           (s0, if buffer \<noteq> [] then [Raw (normalize_data_line buffer)] else [], False)
         else
           (case (if trim buffer \<noteq> [] then
                    (case parseSSELine (JSON_parse e) (trim buffer) of
                       None \<Rightarrow> Some (s_state s0, [])
                     | Some parsed \<Rightarrow>
                         if truthy parsed \<and> \<not> truthy (jget parsed ''done'') then
                           (case translateResponse e (Some parsed) (s_state s0) of
                              None \<Rightarrow> None
                            | Some (translated, st1) \<Rightarrow>
                                Some (st1, emit_translated (claude_client e) translated))
                         else Some (s_state s0, []))
                  else Some (s_state s0, [])) of
              None \<Rightarrow> (s0, [], True)
            | Some (st1, out1) \<Rightarrow>
                (case translateResponse e None st1 of
                   None \<Rightarrow> (s0\<lparr>s_state := st1\<rparr>, out1, True)
                 | Some (flushed, st2) \<Rightarrow>
                     (s0\<lparr>s_state := st2\<rparr>,
                      out1 @ emit_translated (claude_client e) flushed @ [Record DoneRecord],
                      False))))"

text \<open>
  \<^verbatim>\<open>flush\<close>, given the state \<open>ds\<close> the shared decoder is in: \<^verbatim>\<open>sharedDecoder.decode()\<close>
  returns what is pending in the decoder, whichever stream's bytes they are, and resets
  it.
\<close>

definition flush ::
  "('d, 's) env \<Rightarrow> stream_mode \<Rightarrow> 'd \<Rightarrow> 's stream
     \<Rightarrow> 'd \<times> 's stream \<times> enqueued list \<times> bool" where
  "flush e mode ds s =
     (case finish e mode s (decode_end e ds) of
        (s1, out, caught) \<Rightarrow> (decode_init e, s1, out, caught))"

subsection \<open>The calls of one stream\<close>

text \<open>
  The platform calls \<^verbatim>\<open>transform\<close> once for every chunk, in order, and \<^verbatim>\<open>flush\<close> when the
  upstream ends; what is enqueued comes out in that order.  Between two calls of one
  stream other streams may use the shared decoder, so every call comes with the state
  the decoder is found in: a call is a pair of that state and the chunk.  When a call
  has thrown, no further call is made.
\<close>

fun transform_calls ::
  "('d, 's) env \<Rightarrow> stream_mode \<Rightarrow> 's stream \<Rightarrow> ('d \<times> 8 word list) list
     \<Rightarrow> 's stream \<times> enqueued list" where
  "transform_calls e mode s [] = (s, [])"
| "transform_calls e mode s ((ds, chunk) # calls) =
     (if s_errored s then (s, [])
      else (case transform e mode ds s chunk of (ds1, s1, out1) \<Rightarrow>
              (case transform_calls e mode s1 calls of (s2, out2) \<Rightarrow> (s2, out1 @ out2))))"

text \<open>How the calls of a stream ended.\<close>

datatype ending = Completed | TransformThrew | FlushCaught

text \<open>
  All calls of one stream: the transforms, then the flush with the decoder in the state
  \<open>ds_end\<close>.
\<close>

definition stream_calls ::
  "('d, 's) env \<Rightarrow> stream_mode \<Rightarrow> 's stream \<Rightarrow> ('d \<times> 8 word list) list \<Rightarrow> 'd
     \<Rightarrow> 's stream \<times> enqueued list \<times> ending" where
  "stream_calls e mode s calls ds_end =
     (case transform_calls e mode s calls of (s1, out1) \<Rightarrow>
        if s_errored s1 then (s1, out1, TransformThrew)
        else (case flush e mode ds_end s1 of
                (ds2, s2, out2, caught) \<Rightarrow>
                  (s2, out1 @ out2, if caught then FlushCaught else Completed)))"

text \<open>The text the decoder gave the stream in its calls of \<^verbatim>\<open>transform\<close>.\<close>

definition calls_text :: "('d, 's) env \<Rightarrow> ('d \<times> 8 word list) list \<Rightarrow> utf16" where
  "calls_text e calls = concat (map (\<lambda>(ds, chunk). fst (decode (decode_step e) ds chunk)) calls)"

subsection \<open>Several streams on the shared decoder\<close>

text \<open>
  What happens in the module, in order: a chunk arrives for the stream of some index, or
  the upstream of a stream ends.  The streams are those of one call site (one
  environment, one mode).  The result is the state of the decoder, the streams, and what
  was enqueued, each item with the index of its stream.
\<close>

datatype event = Chunk nat "8 word list" | End nat

fun run_events ::
  "('d, 's) env \<Rightarrow> stream_mode \<Rightarrow> 'd \<Rightarrow> 's stream list \<Rightarrow> event list
     \<Rightarrow> 'd \<times> 's stream list \<times> (nat \<times> enqueued) list" where
  "run_events e mode ds ss [] = (ds, ss, [])"
| "run_events e mode ds ss (Chunk i chunk # evs) =
     (if i < length ss \<and> \<not> s_errored (ss ! i) then
        (case transform e mode ds (ss ! i) chunk of (ds1, s1, out) \<Rightarrow>
           (case run_events e mode ds1 (ss[i := s1]) evs of
              (ds2, ss2, outs) \<Rightarrow> (ds2, ss2, map (Pair i) out @ outs)))
      else run_events e mode ds ss evs)"
| "run_events e mode ds ss (End i # evs) =
     (if i < length ss \<and> \<not> s_errored (ss ! i) then
        (case flush e mode ds (ss ! i) of (ds1, s1, out, caught) \<Rightarrow>
           (case run_events e mode ds1 (ss[i := s1]) evs of
              (ds2, ss2, outs) \<Rightarrow> (ds2, ss2, map (Pair i) out @ outs)))
      else run_events e mode ds ss evs)"

text \<open>What the stream of index \<open>i\<close> sent on.\<close>

definition sent_by :: "nat \<Rightarrow> 'd \<times> 's stream list \<times> (nat \<times> enqueued) list \<Rightarrow> enqueued list" where
  "sent_by i r = map snd (filter (\<lambda>io. fst io = i) (snd (snd r)))"

subsection \<open>Lines and parsed values\<close>

text \<open>
  The JSON values the parser hands on for one line: the truthy result of
  \<^verbatim>\<open>parseSSELine\<close> on the trimmed line.  For the sentinel \<^verbatim>\<open>[DONE]\<close> that is the object
  \<^verbatim>\<open>{ done: true }\<close>.
\<close>

definition parsed_of_line :: "('d, 's) env \<Rightarrow> utf16 \<Rightarrow> json list" where
  "parsed_of_line e line =
     (if trim line = [] then []
      else (case parseSSELine (JSON_parse e) (trim line) of
              None \<Rightarrow> []
            | Some parsed \<Rightarrow> if truthy parsed then [parsed] else []))"

text \<open>
  What \<^verbatim>\<open>createSSEStream\<close> sets up before the first chunk: an empty buffer, no usage
  seen, and the translator's state \<open>st\<close> (\<^verbatim>\<open>initState(sourceFormat)\<close> with the provider
  and the tool-name map).
\<close>

definition createSSEStream :: "'s tstate \<Rightarrow> 's stream" where
  "createSSEStream st = \<lparr>s_buffer = [], s_usage = None, s_state = st, s_errored = False\<rparr>"

text \<open>The translator never returns an event that \<^verbatim>\<open>formatSSE\<close> frames as \<^verbatim>\<open>data: [DONE]\<close>.\<close>

definition no_done_events :: "('d, 's) env \<Rightarrow> bool" where
  "no_done_events e \<longleftrightarrow>
     (\<forall>chunk st translated st'. translateResponse e chunk st = Some (translated, st') \<longrightarrow>
        (\<forall>item \<in> set (the_default [] translated). formatSSE (claude_client e) item \<noteq> DoneRecord))"

text \<open>
  The complete lines of a decoded text that the transform answers with
  \<^verbatim>\<open>data: [DONE]\<close>: those whose parsed value has a truthy \<^verbatim>\<open>done\<close>.  These are the
  lines that carry the sentinel \<^verbatim>\<open>[DONE]\<close>, and also the lines whose JSON payload is an
  object with a truthy \<^verbatim>\<open>done\<close> property, such as \<^verbatim>\<open>data: {"done":true}\<close>.
\<close>

definition done_lines :: "('d, 's) env \<Rightarrow> utf16 \<Rightarrow> json list" where
  "done_lines e t =
     filter (\<lambda>parsed. truthy (jget parsed ''done''))
       (concat (map (parsed_of_line e) (butlast (split_nl t))))"

subsection \<open>Environments for the examples\<close>

text \<open>
  Bytes of an ASCII literal, and an environment to run the orchestrator in: a decoder
  for ASCII input (every byte is one code unit, nothing is ever pending), a parser that
  knows the one payload \<^verbatim>\<open>{"a":1}\<close>, and a translator that wraps each chunk into one
  event and has nothing to flush.
\<close>

definition ascii :: "string \<Rightarrow> 8 word list" where
  "ascii s = map (\<lambda>c. of_nat (of_char c)) s"

definition example_env :: "(unit, unit) env" where
  "example_env =
     \<lparr>decode_step = (\<lambda>ds b. ([unat b], ds)),
      decode_end = (\<lambda>ds. []),
      decode_init = (),
      JSON_parse = (\<lambda>t. if t = js ''{\"a\":1}'' then Some (JObj [(''a'', JNum 1)]) else None),
      translateResponse =
        (\<lambda>chunk st. Some (case chunk of None \<Rightarrow> None
                                         | Some parsed \<Rightarrow> Some [JObj [(''echo'', parsed)]], st)),
      claude_client = False\<rparr>"

definition example_stream :: "unit stream" where
  "example_stream = createSSEStream \<lparr>ts_usage = None, ts_inner = ()\<rparr>"

text \<open>
  A decoder for UTF-8 input whose characters take one or two bytes, as the platform's
  decoder treats such input.  Its state is the lead byte of an unfinished two-byte
  character, if any.  A byte that cannot continue or start a character gives the
  replacement character U+FFFD (65533), and so does a lead byte left pending at the end.
\<close>

definition utf8_start :: "nat \<Rightarrow> utf16 \<times> nat option" where
  "utf8_start n =
     (if n < 128 then ([n], None)
      else if 194 \<le> n \<and> n < 224 then ([], Some n)
      else ([65533], None))"

definition utf8_step :: "nat option \<Rightarrow> 8 word \<Rightarrow> utf16 \<times> nat option" where
  "utf8_step pending b =
     (case pending of
        None \<Rightarrow> utf8_start (unat b)
      | Some lead \<Rightarrow>
          if 128 \<le> unat b \<and> unat b < 192 then ([(lead - 192) * 64 + (unat b - 128)], None)
          else (case utf8_start (unat b) of (t, p) \<Rightarrow> (65533 # t, p)))"

definition utf8_env :: "(nat option, unit) env" where
  "utf8_env =
     \<lparr>decode_step = utf8_step,
      decode_end = (\<lambda>pending. case pending of None \<Rightarrow> [] | Some lead \<Rightarrow> [65533]),
      decode_init = None,
      JSON_parse = (\<lambda>t. if t = js ''{\"a\":1}'' then Some (JObj [(''a'', JNum 1)]) else None),
      translateResponse =
        (\<lambda>chunk st. Some (case chunk of None \<Rightarrow> None
                                         | Some parsed \<Rightarrow> Some [JObj [(''echo'', parsed)]], st)),
      claude_client = False\<rparr>"

text \<open>
  The bytes of one stream: the line \<^verbatim>\<open>data: {"a":1}\<close>, a no-break space (U+00A0, the
  bytes C2 A0) and a line feed; and the same bytes cut inside the no-break space.
\<close>

definition nbsp_line :: "8 word list" where
  "nbsp_line = ascii ''data: {\"a\":1}'' @ [0xC2, 0xA0, 0x0A]"

definition nbsp_line_head :: "8 word list" where
  "nbsp_line_head = ascii ''data: {\"a\":1}'' @ [0xC2]"

definition nbsp_line_tail :: "8 word list" where
  "nbsp_line_tail = [0xA0, 0x0A]"

text \<open>The bytes of another stream: the same line without the no-break space.\<close>

definition plain_line :: "8 word list" where
  "plain_line = ascii ''data: {\"a\":1}\<newline>''"

section \<open>Cleaning a tool's JSON schema\<close>

subsection \<open>Objects, arrays and their properties\<close>

text \<open>\<^verbatim>\<open>Object.values(v)\<close> for an array or an object.\<close>

definition children :: "json \<Rightarrow> json list" where
  "children v = (case v of JArr xs \<Rightarrow> xs | JObj kvs \<Rightarrow> map snd kvs | _ \<Rightarrow> [])"

text \<open>
  The recursion every pass ends with:
  \<^verbatim>\<open>for (const value of Object.values(obj)) if (value && typeof value === "object") f(value)\<close>.
  The passes change the schema in place; here each returns the changed schema.
\<close>

definition descend :: "(json \<Rightarrow> json) \<Rightarrow> json \<Rightarrow> json" where
  "descend f v =
     (case v of
        JArr xs \<Rightarrow> JArr (map (\<lambda>c. if is_object c then f c else c) xs)
      | JObj kvs \<Rightarrow> JObj (map (\<lambda>(k, c). (k, if is_object c then f c else c)) kvs)
      | _ \<Rightarrow> v)"

lemma descend_cong [fundef_cong]:
  "v = v' \<Longrightarrow> (\<And>c. c \<in> set (children v') \<Longrightarrow> is_object c \<Longrightarrow> f c = g c)
   \<Longrightarrow> descend f v = descend g v'"
  by (cases v') (force simp: descend_def children_def)+

text \<open>The measure of the recursions: arrays and objects count, an object more than an array.\<close>

fun wt :: "json \<Rightarrow> nat" where
  "wt (JArr xs) = 1 + sum_list (map wt xs)"
| "wt (JObj kvs) = 2 + sum_list (map (\<lambda>kv. wt (snd kv)) kvs)"
| "wt v = 0"

text \<open>Decimal digits of an index, for the keys of an array or a string.\<close>

function dec :: "nat \<Rightarrow> string" where
  "dec n = (if n < 10 then [char_of (48 + n)] else dec (n div 10) @ [char_of (48 + n mod 10)])"
  by pat_completeness auto
termination
  by (relation "measure id") auto

text \<open>
  The own enumerable properties of a value, as \<^verbatim>\<open>Object.assign\<close>, the spread
  \<^verbatim>\<open>{...v}\<close> and \<^verbatim>\<open>Object.keys\<close> see them: the entries of an object, the indexed
  elements of an array, the indexed characters of a string, none for any other value.
\<close>

definition own_entries :: "json \<Rightarrow> (string \<times> json) list" where
  "own_entries v =
     (case v of
        JObj kvs \<Rightarrow> kvs
      | JArr xs \<Rightarrow> zip (map dec [0..<length xs]) xs
      | JStr s \<Rightarrow> zip (map dec [0..<length s]) (map (\<lambda>c. JStr [c]) s)
      | _ \<Rightarrow> [])"

text \<open>\<^verbatim>\<open>Object.assign(target, source)\<close> on the entries of the target.\<close>

definition assign :: "(string \<times> json) list \<Rightarrow> json \<Rightarrow> (string \<times> json) list" where
  "assign target source = foldl (\<lambda>t (k, v). obj_set k v t) target (own_entries source)"

text \<open>
  \<^verbatim>\<open>String(v)\<close>; the decimal text of a number is left to the parameter \<open>numstr\<close>.
  Inside an array \<^verbatim>\<open>null\<close> and \<^verbatim>\<open>undefined\<close> give the empty string.
\<close>

fun js_String :: "(rat \<Rightarrow> string) \<Rightarrow> json \<Rightarrow> string" where
  "js_String numstr JUndefined = ''undefined''"
| "js_String numstr JNull = ''null''"
| "js_String numstr (JBool b) = (if b then ''true'' else ''false'')"
| "js_String numstr (JNum n) = numstr n"
| "js_String numstr (JStr s) = s"
| "js_String numstr (JArr xs) =
     join '','' (map (\<lambda>x. if x = JNull \<or> x = JUndefined then [] else js_String numstr x) xs)"
| "js_String numstr (JObj kvs) = ''[object Object]''"

subsection \<open>Phase 1: const to enum, enum values to strings\<close>

definition const_to_enum_here :: "json \<Rightarrow> json" where
  "const_to_enum_here obj =
     (case obj of
        JObj kvs \<Rightarrow>
          (if jget obj ''const'' \<noteq> JUndefined \<and> \<not> truthy (jget obj ''enum'')
           then JObj (obj_without ''const'' (obj_set ''enum'' (JArr [jget obj ''const'']) kvs))
           else obj)
      | _ \<Rightarrow> obj)"

lemma sumw_mem: "(k, c) \<in> set kvs \<Longrightarrow> wt c \<le> sum_list (map (\<lambda>kv. wt (snd kv)) kvs)"
  by (induction kvs) force+

lemma sumw_elem: "c \<in> set xs \<Longrightarrow> wt c \<le> sum_list (map wt xs)"
  by (induction xs) force+

lemma wt_child: "c \<in> set (children v) \<Longrightarrow> wt c < wt v"
proof (cases v)
  case (JArr xs)
  assume "c \<in> set (children v)"
  with JArr have "c \<in> set xs" by (simp add: children_def)
  with JArr sumw_elem [of c xs] show ?thesis by simp
next
  case (JObj kvs)
  assume "c \<in> set (children v)"
  with JObj obtain k where "(k, c) \<in> set kvs" by (auto simp: children_def)
  with JObj sumw_mem [of k c kvs] show ?thesis by simp
qed (auto simp: children_def)

lemma set_obj_without: "set (obj_without k kvs) \<subseteq> set kvs"
  by (auto simp: obj_without_def)

lemma set_map_set: "set (map_set k v kvs) \<subseteq> insert (k, v) (set kvs)"
  by (induction kvs) (auto split: if_splits)

lemma set_obj_set: "set (obj_set k v kvs) \<subseteq> insert (k, v) (set kvs)"
  by (simp add: obj_set_def set_map_set)

lemma jget_mem: "jget (JObj kvs) k = v \<Longrightarrow> v \<noteq> JUndefined \<Longrightarrow> (k, v) \<in> set kvs"
  by (auto split: option.splits dest: map_of_SomeD)

lemma const_to_enum_here_wt:
  assumes "c \<in> set (children (const_to_enum_here obj))"
  shows "wt c < wt obj"
proof (cases obj)
  case (JObj kvs)
  show ?thesis
  proof (cases "jget obj ''const'' \<noteq> JUndefined \<and> \<not> truthy (jget obj ''enum'')")
    case False
    with assms JObj have "c \<in> set (children obj)"
      by (auto simp: const_to_enum_here_def simp del: jget.simps)
    then show ?thesis by (rule wt_child)
  next
    case True
    let ?x = "jget obj ''const''"
    have mem: "(''const'', ?x) \<in> set kvs" using True JObj jget_mem by blast
    from assms True JObj obtain k where
      "(k, c) \<in> set (obj_without ''const'' (obj_set ''enum'' (JArr [?x]) kvs))"
      by (auto simp: const_to_enum_here_def children_def)
    then have "(k, c) \<in> insert (''enum'', JArr [?x]) (set kvs)"
      using set_obj_without set_obj_set by blast
    then consider "c = JArr [?x]" | "(k, c) \<in> set kvs" by auto
    then show ?thesis
    proof cases
      case 1
      with sumw_mem [OF mem] JObj show ?thesis by simp
    next
      case 2
      with sumw_mem [OF 2] JObj show ?thesis by simp
    qed
  qed
qed (use assms wt_child [of c obj] in \<open>auto simp: const_to_enum_here_def\<close>)

function convertConstToEnum :: "json \<Rightarrow> json" where
  "convertConstToEnum obj =
     (if \<not> is_object obj then obj
      else descend convertConstToEnum (const_to_enum_here obj))"
  by pat_completeness auto
termination
  by (relation "measure wt") (auto intro: const_to_enum_here_wt)

definition enum_to_strings_here :: "(rat \<Rightarrow> string) \<Rightarrow> json \<Rightarrow> json" where
  "enum_to_strings_here numstr obj =
     (case obj of
        JObj kvs \<Rightarrow>
          (case jget obj ''enum'' of
             JArr es \<Rightarrow> JObj (obj_set ''enum'' (JArr (map (\<lambda>v. JStr (js_String numstr v)) es)) kvs)
           | _ \<Rightarrow> obj)
      | _ \<Rightarrow> obj)"

lemma wt_strings: "wt (JArr (map (\<lambda>v. JStr (f v)) es)) = 1"
  by (induction es) auto

lemma enum_to_strings_here_wt:
  assumes "c \<in> set (children (enum_to_strings_here numstr obj))"
  shows "wt c < wt obj"
proof (cases obj)
  case (JObj kvs)
  show ?thesis
  proof (cases "jget obj ''enum''")
    case (JArr es)
    from assms JArr JObj obtain k where
      "(k, c) \<in> set (obj_set ''enum'' (JArr (map (\<lambda>v. JStr (js_String numstr v)) es)) kvs)"
      by (auto simp: enum_to_strings_here_def children_def)
    then consider "c = JArr (map (\<lambda>v. JStr (js_String numstr v)) es)" | "(k, c) \<in> set kvs"
      using set_obj_set by fastforce
    then show ?thesis
    proof cases
      case 1
      then have "wt c = 1" by (simp only: wt_strings)
      with JObj show ?thesis by simp
    next
      case 2
      with sumw_mem [OF 2] JObj show ?thesis by simp
    qed
  qed (use assms JObj wt_child [of c obj] in \<open>auto simp: enum_to_strings_here_def\<close>)
qed (use assms wt_child [of c obj] in \<open>auto simp: enum_to_strings_here_def\<close>)

function convertEnumValuesToStrings :: "(rat \<Rightarrow> string) \<Rightarrow> json \<Rightarrow> json" where
  "convertEnumValuesToStrings numstr obj =
     (if \<not> is_object obj then obj
      else descend (convertEnumValuesToStrings numstr) (enum_to_strings_here numstr obj))"
  by pat_completeness auto
termination
  by (relation "measure (\<lambda>(numstr, obj). wt obj)") (auto intro: enum_to_strings_here_wt)

subsection \<open>Phase 2: allOf, anyOf and oneOf, type arrays\<close>

text \<open>
  \<^verbatim>\<open>xs.includes(v)\<close>: a primitive is found by its value; an object or an array only
  by identity, and the values compared here are different objects of the schema.
\<close>

definition js_includes :: "json list \<Rightarrow> json \<Rightarrow> bool" where
  "js_includes xs v \<longleftrightarrow> \<not> is_object v \<and> v \<in> set xs"

text \<open>
  The loop over \<^verbatim>\<open>obj.allOf\<close>, filling \<^verbatim>\<open>merged.properties\<close> and
  \<^verbatim>\<open>merged.required\<close> (each \<open>None\<close> while not created).  Reading a property of a
  \<^verbatim>\<open>null\<close> item throws: the result is \<open>None\<close>.
\<close>

fun merge_items ::
  "json list \<Rightarrow> (string \<times> json) list option \<times> json list option
     \<Rightarrow> ((string \<times> json) list option \<times> json list option) option" where
  "merge_items [] acc = Some acc"
| "merge_items (item # items) (mp, mr) =
     (if item = JNull \<or> item = JUndefined then None
      else
        merge_items items
          (if truthy (jget item ''properties'')
           then Some (assign (the_default [] mp) (jget item ''properties''))
           else mp,
           case jget item ''required'' of
             JArr rs \<Rightarrow>
               Some (foldl (\<lambda>acc req. if js_includes acc req then acc else acc @ [req])
                      (the_default [] mr) rs)
           | _ \<Rightarrow> mr))"

text \<open>\<^verbatim>\<open>[...v]\<close>: an array or a string can be spread, any other value throws.\<close>

definition spread_iter :: "json \<Rightarrow> json list option" where
  "spread_iter v =
     (case v of JArr xs \<Rightarrow> Some xs | JStr s \<Rightarrow> Some (map (\<lambda>c. JStr [c]) s) | _ \<Rightarrow> None)"

definition merge_allOf_here :: "json \<Rightarrow> json option" where
  "merge_allOf_here obj =
     (case obj of
        JObj kvs \<Rightarrow>
          (case jget obj ''allOf'' of
             JArr items \<Rightarrow>
               (case merge_items items (None, None) of
                  None \<Rightarrow> None
                | Some (mp, mr) \<Rightarrow>
                    (let kvs1 = obj_without ''allOf'' kvs;
                         kvs2 = (case mp of
                                   None \<Rightarrow> kvs1
                                 | Some m \<Rightarrow>
                                     obj_set ''properties''
                                       (JObj (assign (assign [] (jget (JObj kvs1) ''properties''))
                                                (JObj m)))
                                       kvs1)
                     in case mr of
                          None \<Rightarrow> Some (JObj kvs2)
                        | Some r \<Rightarrow>
                            (case (if truthy (jget (JObj kvs2) ''required'')
                                   then spread_iter (jget (JObj kvs2) ''required'')
                                   else Some []) of
                               None \<Rightarrow> None
                             | Some old \<Rightarrow>
                                 Some (JObj (obj_set ''required'' (JArr (old @ r)) kvs2)))))
           | _ \<Rightarrow> Some obj)
      | _ \<Rightarrow> Some obj)"

text \<open>The closing recursion of a pass that can throw.\<close>

definition descend_opt :: "(json \<Rightarrow> json option) \<Rightarrow> json \<Rightarrow> json option" where
  "descend_opt f v =
     (case v of
        JArr xs \<Rightarrow> map_option JArr (those (map (\<lambda>c. if is_object c then f c else Some c) xs))
      | JObj kvs \<Rightarrow>
          map_option JObj
            (those (map (\<lambda>(k, c). map_option (Pair k) (if is_object c then f c else Some c)) kvs))
      | _ \<Rightarrow> Some v)"

lemma descend_opt_cong [fundef_cong]:
  "v = v' \<Longrightarrow> (\<And>c. c \<in> set (children v') \<Longrightarrow> is_object c \<Longrightarrow> f c = g c)
   \<Longrightarrow> descend_opt f v = descend_opt g v'"
proof (cases v')
  case (JArr xs)
  assume "v = v'" and h: "\<And>c. c \<in> set (children v') \<Longrightarrow> is_object c \<Longrightarrow> f c = g c"
  have m: "map (\<lambda>c. if is_object c then f c else Some c) xs
      = map (\<lambda>c. if is_object c then g c else Some c) xs"
    using h JArr by (auto simp: children_def)
  show ?thesis unfolding \<open>v = v'\<close> JArr descend_opt_def by (simp only: json.case m)
next
  case (JObj kvs)
  assume "v = v'" and h: "\<And>c. c \<in> set (children v') \<Longrightarrow> is_object c \<Longrightarrow> f c = g c"
  have m: "map (\<lambda>(k, c). map_option (Pair k) (if is_object c then f c else Some c)) kvs
      = map (\<lambda>(k, c). map_option (Pair k) (if is_object c then g c else Some c)) kvs"
    using h JObj by (force simp: children_def)
  show ?thesis unfolding \<open>v = v'\<close> JObj descend_opt_def by (simp only: json.case m)
qed (auto simp: descend_opt_def)

text \<open>Weights of entry lists, for the termination of the merge.\<close>

abbreviation sumw :: "(string \<times> json) list \<Rightarrow> nat" where
  "sumw kvs \<equiv> sum_list (map (\<lambda>kv. wt (snd kv)) kvs)"

lemma sumw_map_set: "sumw (map_set k v kvs) \<le> sumw kvs + wt v"
  by (induction kvs) auto

lemma sumw_obj_set: "sumw (obj_set k v kvs) \<le> sumw kvs + wt v"
  by (simp add: obj_set_def sumw_map_set)

lemma sumw_obj_without: "sumw (obj_without k kvs) \<le> sumw kvs"
  by (induction kvs) (auto simp: obj_without_def)

lemma sumw_foldl_set:
  "sumw (foldl (\<lambda>t (k, v). obj_set k v t) target es) \<le> sumw target + sumw es"
proof (induction es arbitrary: target)
  case Nil
  show ?case by simp
next
  case (Cons e es)
  obtain k v where e: "e = (k, v)" by (cases e)
  have "sumw (foldl (\<lambda>t (k, v). obj_set k v t) (obj_set k v target) es)
          \<le> sumw (obj_set k v target) + sumw es"
    by (rule Cons.IH)
  also have "\<dots> \<le> sumw target + wt v + sumw es"
    using sumw_obj_set [of k v target] by simp
  finally show ?case by (simp add: e)
qed

lemma sumw_zip: "sumw (zip ks xs) \<le> sum_list (map wt xs)"
proof (induction xs arbitrary: ks)
  case Nil
  show ?case by simp
next
  case (Cons x xs)
  show ?case using Cons [of "tl ks"] by (cases ks) auto
qed

lemma sumw_own_entries: "sumw (own_entries v) \<le> wt v"
proof (cases v)
  case (JArr xs)
  then show ?thesis using sumw_zip [of "map dec [0..<length xs]" xs] by (simp add: own_entries_def)
next
  case (JObj kvs)
  then show ?thesis by (simp add: own_entries_def)
next
  case (JStr s)
  have "sum_list (map wt (map (\<lambda>c. JStr [c]) s)) = 0"
    by (induction s) (auto simp: comp_def)
  then have "sumw (zip (map dec [0..<length s]) (map (\<lambda>c. JStr [c]) s)) = 0"
    using sumw_zip [of "map dec [0..<length s]" "map (\<lambda>c. JStr [c]) s"] by linarith
  with JStr show ?thesis
    by (simp only: own_entries_def json.case wt.simps)
qed (auto simp: own_entries_def)

lemma sumw_assign: "sumw (assign target source) \<le> sumw target + wt source"
  using sumw_foldl_set [of target "own_entries source"] sumw_own_entries [of source]
  by (simp add: assign_def)


lemma sumw_assign_entries: "sumw (assign target source) \<le> sumw target + sumw (own_entries source)"
  using sumw_foldl_set [of target "own_entries source"] by (simp add: assign_def)

lemma wt_jget_obj: "wt (jget (JObj kvs) k) \<le> sumw kvs"
proof (cases "map_of kvs k")
  case None
  then show ?thesis by simp
next
  case (Some c)
  then have "(k, c) \<in> set kvs" by (rule map_of_SomeD)
  with sumw_mem [of k c kvs] Some show ?thesis by simp
qed

lemma wt_jget: "wt (jget v k) \<le> wt v"
proof (cases v)
  case (JObj kvs)
  with wt_jget_obj [of kvs k] show ?thesis by (simp del: jget.simps)
qed auto

lemma wt_jget_two:
  "k1 \<noteq> k2 \<Longrightarrow> wt (jget (JObj kvs) k1) + wt (jget (JObj kvs) k2) \<le> sumw kvs"
proof (induction kvs)
  case Nil
  show ?case by simp
next
  case (Cons kv kvs)
  obtain k c where kv: "kv = (k, c)" by (cases kv)
  have a: "wt (jget (JObj kvs) k1) \<le> sumw kvs" and b: "wt (jget (JObj kvs) k2) \<le> sumw kvs"
    by (rule wt_jget_obj)+
  show ?case using Cons a b by (auto simp: kv)
qed

lemma wt_push:
  "sum_list (map wt (foldl (\<lambda>acc req. if js_includes acc req then acc else acc @ [req]) acc rs))
     \<le> sum_list (map wt acc) + sum_list (map wt rs)"
proof (induction rs arbitrary: acc)
  case Nil
  show ?case by simp
next
  case (Cons r rs)
  show ?case
  proof (cases "js_includes acc r")
    case True
    with Cons [of acc] show ?thesis by simp
  next
    case False
    with Cons [of "acc @ [r]"] show ?thesis by simp
  qed
qed

lemma merge_items_wt:
  "merge_items items (mp, mr) = Some (mp', mr') \<Longrightarrow>
   sumw (the_default [] mp') \<le> sumw (the_default [] mp) + sum_list (map wt items)
   \<and> sum_list (map wt (the_default [] mr'))
       \<le> sum_list (map wt (the_default [] mr)) + sum_list (map wt items)"
proof (induction items arbitrary: mp mr)
  case Nil
  then show ?case by simp
next
  case (Cons item items)
  let ?mp1 = "if truthy (jget item ''properties'')
              then Some (assign (the_default [] mp) (jget item ''properties'')) else mp"
  let ?mr1 = "case jget item ''required'' of
                JArr rs \<Rightarrow>
                  Some (foldl (\<lambda>acc req. if js_includes acc req then acc else acc @ [req])
                         (the_default [] mr) rs)
              | _ \<Rightarrow> mr"
  from Cons.prems have ok: "\<not> (item = JNull \<or> item = JUndefined)"
    by (auto split: if_splits)
  with Cons.prems have rec: "merge_items items (?mp1, ?mr1) = Some (mp', mr')"
    by (simp del: jget.simps)
  note ih = Cons.IH [OF rec]
  have p: "sumw (the_default [] ?mp1) \<le> sumw (the_default [] mp) + wt item"
  proof (cases "truthy (jget item ''properties'')")
    case True
    have "sumw (assign (the_default [] mp) (jget item ''properties''))
            \<le> sumw (the_default [] mp) + wt (jget item ''properties'')"
      by (rule sumw_assign)
    with True wt_jget [of item "''properties''"] show ?thesis
      by (simp add: the_default_def del: jget.simps)
  next
    case False
    then show ?thesis by simp
  qed
  have r: "sum_list (map wt (the_default [] ?mr1))
             \<le> sum_list (map wt (the_default [] mr)) + wt item"
  proof (cases "jget item ''required''")
    case (JArr rs)
    have "sum_list (map wt rs) \<le> wt item"
      using wt_jget [of item "''required''"] JArr by (simp del: jget.simps)
    with wt_push [of "the_default [] mr" rs] JArr show ?thesis
      by (simp add: the_default_def del: jget.simps)
  qed (simp_all del: jget.simps)
  from ih p r show ?case by (simp del: jget.simps)
qed

lemma wt_spread_iter: "spread_iter v = Some xs \<Longrightarrow> sum_list (map wt xs) \<le> wt v"
  by (cases v) (auto simp: spread_iter_def comp_def)

lemma jget_obj_without: "k \<noteq> k' \<Longrightarrow> jget (JObj (obj_without k' kvs)) k = jget (JObj kvs) k"
  by (induction kvs) (auto simp: obj_without_def)

lemma map_of_map_set: "map_of (map_set k v kvs) k' = (if k' = k then Some v else map_of kvs k')"
  by (induction kvs) auto

lemma jget_obj_set: "jget (JObj (obj_set k v kvs)) k' = (if k' = k then v else jget (JObj kvs) k')"
  by (simp add: obj_set_def map_of_map_set)

lemma merge_allOf_here_wt:
  assumes "merge_allOf_here obj = Some obj'" "c \<in> set (children obj')"
  shows "wt c < wt obj"
proof (cases obj)
  case (JObj kvs)
  show ?thesis
  proof (cases "jget obj ''allOf''")
    case (JArr items)
    from assms(1) JObj JArr obtain mp mr where
      mi: "merge_items items (None, None) = Some (mp, mr)"
      by (auto simp: merge_allOf_here_def simp del: jget.simps split: option.splits)
    define kvs1 where "kvs1 = obj_without ''allOf'' kvs"
    define N where "N = (\<lambda>m. JObj (assign (assign [] (jget (JObj kvs1) ''properties'')) (JObj m)))"
    define kvs2 where
      "kvs2 = (case mp of None \<Rightarrow> kvs1 | Some m \<Rightarrow> obj_set ''properties'' (N m) kvs1)"
    have bounds: "sumw (the_default [] mp) \<le> sum_list (map wt items)"
                 "sum_list (map wt (the_default [] mr)) \<le> sum_list (map wt items)"
      using merge_items_wt [OF mi] by (simp_all add: the_default_def)
    have items: "Suc (sum_list (map wt items)) = wt (jget (JObj kvs) ''allOf'')"
      using JArr JObj by (simp del: jget.simps)
    have P: "jget (JObj kvs1) ''properties'' = jget (JObj kvs) ''properties''"
      by (simp add: kvs1_def jget_obj_without del: jget.simps)
    have two_p: "wt (jget (JObj kvs) ''properties'') + wt (jget (JObj kvs) ''allOf'') \<le> sumw kvs"
      by (rule wt_jget_two) simp
    have two_r: "wt (jget (JObj kvs) ''required'') + wt (jget (JObj kvs) ''allOf'') \<le> sumw kvs"
      by (rule wt_jget_two) simp
    have wN: "wt (N m) < wt obj" if "mp = Some m" for m
    proof -
      have "sumw (assign (assign [] (jget (JObj kvs1) ''properties'')) (JObj m))
              \<le> sumw (assign [] (jget (JObj kvs1) ''properties'')) + sumw m"
        using sumw_assign_entries [of _ "JObj m"] by (simp add: own_entries_def)
      also have "\<dots> \<le> wt (jget (JObj kvs1) ''properties'') + sumw m"
        using sumw_assign [of "[]" "jget (JObj kvs1) ''properties''"] by simp
      finally have "wt (N m) \<le> 2 + wt (jget (JObj kvs) ''properties'') + sumw m"
        by (simp add: N_def P del: jget.simps)
      with bounds(1) that items two_p JObj show ?thesis
        by (simp add: the_default_def del: jget.simps)
    qed
    have k1: "(k, c) \<in> set kvs1 \<Longrightarrow> wt c < wt obj" for k c
      using sumw_mem [of k c kvs] set_obj_without [of "''allOf''" kvs] JObj
      by (auto simp: kvs1_def)
    have k2: "wt c < wt obj" if "(k, c) \<in> set kvs2" for k c
    proof (cases mp)
      case None
      with that k1 show ?thesis by (simp add: kvs2_def)
    next
      case (Some m)
      with that have "(k, c) \<in> insert (''properties'', N m) (set kvs1)"
        using set_obj_set [of "''properties''" "N m" kvs1] by (auto simp: kvs2_def)
      with k1 wN [OF Some] show ?thesis by auto
    qed
    have R: "jget (JObj kvs2) ''required'' = jget (JObj kvs) ''required''"
      by (cases mp) (simp_all add: kvs2_def kvs1_def jget_obj_set jget_obj_without del: jget.simps)
    show ?thesis
    proof (cases mr)
      case None
      with assms(1) JObj JArr mi have "obj' = JObj kvs2"
        unfolding kvs2_def kvs1_def N_def
        by (auto simp: merge_allOf_here_def Let_def simp del: jget.simps)
      with assms(2) k2 show ?thesis by (auto simp: children_def)
    next
      case (Some r)
      with assms(1) JObj JArr mi obtain old where
        old: "(if truthy (jget (JObj kvs2) ''required'')
               then spread_iter (jget (JObj kvs2) ''required'') else Some []) = Some old"
        and o': "obj' = JObj (obj_set ''required'' (JArr (old @ r)) kvs2)"
        unfolding kvs2_def kvs1_def N_def
        by (auto simp: merge_allOf_here_def Let_def
            simp del: jget.simps split: option.splits)
      have wold: "sum_list (map wt old) \<le> wt (jget (JObj kvs) ''required'')"
        using old wt_spread_iter [of "jget (JObj kvs2) ''required''" old]
        by (auto simp: R simp del: jget.simps split: if_splits)
      have wR: "wt (JArr (old @ r)) < wt obj"
        using wold bounds(2) Some items two_r JObj
        by (simp add: the_default_def del: jget.simps)
      from assms(2) o' obtain k where
        "(k, c) \<in> set (obj_set ''required'' (JArr (old @ r)) kvs2)"
        by (auto simp: children_def)
      then have "(k, c) \<in> insert (''required'', JArr (old @ r)) (set kvs2)"
        using set_obj_set [of "''required''" "JArr (old @ r)" kvs2] by blast
      with wR k2 show ?thesis by auto
    qed
  qed (use assms JObj wt_child [of c obj] in \<open>auto simp: merge_allOf_here_def\<close>)
qed (use assms wt_child [of c obj] in \<open>auto simp: merge_allOf_here_def\<close>)

function mergeAllOf :: "json \<Rightarrow> json option" where
  "mergeAllOf obj =
     (if \<not> is_object obj then Some obj
      else (case merge_allOf_here obj of
              None \<Rightarrow> None
            | Some obj' \<Rightarrow> descend_opt mergeAllOf obj'))"
  by pat_completeness auto
termination
  by (relation "measure wt") (auto intro: merge_allOf_here_wt)

text \<open>The score of one schema in \<^verbatim>\<open>selectBest\<close>.\<close>

definition score :: "json \<Rightarrow> int" where
  "score item =
     (if jget item ''type'' = JStr ''object'' \<or> truthy (jget item ''properties'') then 3
      else if jget item ''type'' = JStr ''array'' \<or> truthy (jget item ''items'') then 2
      else if truthy (jget item ''type'') \<and> jget item ''type'' \<noteq> JStr ''null'' then 1
      else 0)"

text \<open>The loop of \<^verbatim>\<open>selectBest\<close> from index \<open>i\<close> on.\<close>

fun select_loop :: "json list \<Rightarrow> nat \<Rightarrow> nat \<times> int \<Rightarrow> nat" where
  "select_loop [] i (bestIdx, bestScore) = bestIdx"
| "select_loop (item # items) i (bestIdx, bestScore) =
     (if score item > bestScore then select_loop items (i + 1) (i, score item)
      else select_loop items (i + 1) (bestIdx, bestScore))"

definition selectBest :: "json list \<Rightarrow> nat" where
  "selectBest items = select_loop items 0 (0, -1)"

text \<open>One of the two blocks of \<^verbatim>\<open>flattenAnyOfOneOf\<close>, for the key \<open>anyOf\<close> or \<open>oneOf\<close>.\<close>

definition flatten_key :: "string \<Rightarrow> json \<Rightarrow> json" where
  "flatten_key key obj =
     (case obj of
        JObj kvs \<Rightarrow>
          (case jget obj key of
             JArr xs \<Rightarrow>
               (if length xs > 0 then
                  (let nonNullSchemas =
                         filter (\<lambda>s. truthy s \<and> jget s ''type'' \<noteq> JStr ''null'') xs
                   in if length nonNullSchemas > 0 then
                        JObj (assign (obj_without key kvs)
                                (nonNullSchemas ! selectBest nonNullSchemas))
                      else obj)
                else obj)
           | _ \<Rightarrow> obj)
      | _ \<Rightarrow> obj)"

definition flatten_here :: "json \<Rightarrow> json" where
  "flatten_here obj = flatten_key ''oneOf'' (flatten_key ''anyOf'' obj)"

lemma select_loop_bound:
  "bestIdx < i + length items \<Longrightarrow> select_loop items i (bestIdx, bestScore) < i + length items"
proof (induction items arbitrary: i bestIdx bestScore)
  case Nil
  then show ?case by simp
next
  case (Cons item items)
  show ?case
  proof (cases "score item > bestScore")
    case True
    with Cons.IH [of i "i + 1" "score item"] show ?thesis by simp
  next
    case False
    with Cons.IH [of bestIdx "i + 1" bestScore] Cons.prems show ?thesis by simp
  qed
qed

lemma selectBest_bound: "items \<noteq> [] \<Longrightarrow> selectBest items < length items"
  using select_loop_bound [of 0 0 items "-1"] by (simp add: selectBest_def)

lemma set_foldl_set:
  "set (foldl (\<lambda>t (k, v). obj_set k v t) target es) \<subseteq> set target \<union> set es"
proof (induction es arbitrary: target)
  case Nil
  show ?case by simp
next
  case (Cons e es)
  obtain k v where e: "e = (k, v)" by (cases e)
  show ?case using Cons [of "obj_set k v target"] set_obj_set [of k v target]
    by (auto simp: e)
qed

lemma set_assign: "set (assign target source) \<subseteq> set target \<union> set (own_entries source)"
  by (simp add: assign_def set_foldl_set)

lemma own_entries_child:
  assumes "(k, c) \<in> set (own_entries v)" "is_object c"
  shows "c \<in> set (children v)"
proof (cases v)
  case (JArr xs)
  with assms(1) show ?thesis
    by (auto simp: own_entries_def children_def dest: set_zip_rightD)
next
  case (JObj kvs)
  with assms(1) show ?thesis by (force simp: own_entries_def children_def)
next
  case (JStr s)
  with assms(1) have "c \<in> set (map (\<lambda>c. JStr [c]) s)"
    by (auto simp: own_entries_def dest: set_zip_rightD)
  with assms(2) show ?thesis by (auto simp: is_object_def)
qed (use assms in \<open>auto simp: own_entries_def\<close>)

lemma flatten_key_cases:
  "flatten_key key obj = obj
   \<or> (\<exists>kvs xs sel. obj = JObj kvs \<and> jget obj key = JArr xs \<and> sel \<in> set xs
        \<and> truthy sel \<and> jget sel ''type'' \<noteq> JStr ''null''
        \<and> flatten_key key obj = JObj (assign (obj_without key kvs) sel))"
proof (cases obj)
  case (JObj kvs)
  show ?thesis
  proof (cases "jget obj key")
    case (JArr xs)
    define nn where "nn = filter (\<lambda>s. truthy s \<and> jget s ''type'' \<noteq> JStr ''null'') xs"
    show ?thesis
    proof (cases "nn = []")
      case True
      then have "flatten_key key obj = obj"
        unfolding nn_def using JObj JArr
        by (simp add: flatten_key_def Let_def del: jget.simps)
      then show ?thesis by simp
    next
      case False
      then have "nn ! selectBest nn \<in> set nn"
        using selectBest_bound [of nn] by simp
      then have sel: "nn ! selectBest nn \<in> set xs" "truthy (nn ! selectBest nn)"
        "jget (nn ! selectBest nn) ''type'' \<noteq> JStr ''null''"
        by (auto simp: nn_def)
      have "xs \<noteq> []" using False by (auto simp: nn_def)
      then have "flatten_key key obj = JObj (assign (obj_without key kvs) (nn ! selectBest nn))"
        using False JObj JArr unfolding nn_def
        by (simp add: flatten_key_def Let_def del: jget.simps)
      with sel JObj JArr show ?thesis by blast
    qed
  qed (use JObj in \<open>auto simp: flatten_key_def\<close>)
qed (auto simp: flatten_key_def)

text \<open>A bound on the object children that a block keeps.\<close>

lemma flatten_key_bound:
  assumes "\<forall>c \<in> set (children obj). is_object c \<longrightarrow> wt c < b"
    and "c \<in> set (children (flatten_key key obj))" "is_object c"
  shows "wt c < b"
  using flatten_key_cases [of key obj]
proof (elim disjE exE conjE)
  assume "flatten_key key obj = obj"
  with assms show ?thesis by simp
next
  fix kvs xs sel
  assume o: "obj = JObj kvs" and a: "jget obj key = JArr xs" and sel: "sel \<in> set xs"
    and f: "flatten_key key obj = JObj (assign (obj_without key kvs) sel)"
  have arr: "JArr xs \<in> set (children obj)"
    using a o jget_mem [of kvs key "JArr xs"] by (force simp: children_def)
  moreover have "is_object (JArr xs)" by (simp add: is_object_def)
  ultimately have "wt (JArr xs) < b" using assms(1) by blast
  moreover have "wt sel \<le> sum_list (map wt xs)" using sel by (rule sumw_elem)
  ultimately have wsel: "wt sel < b" by simp
  from assms(2) f obtain k where "(k, c) \<in> set (assign (obj_without key kvs) sel)"
    by (auto simp: children_def)
  then consider "(k, c) \<in> set kvs" | "(k, c) \<in> set (own_entries sel)"
    using set_assign [of "obj_without key kvs" sel] set_obj_without [of key kvs] by blast
  then show ?thesis
  proof cases
    case 1
    then have "c \<in> set (children obj)" using o by (force simp: children_def)
    with assms(1,3) show ?thesis by simp
  next
    case 2
    then have "c \<in> set (children sel)" using assms(3) by (rule own_entries_child)
    then have "wt c < wt sel" by (rule wt_child)
    with wsel show ?thesis by simp
  qed
qed

lemma flatten_here_wt:
  assumes "c \<in> set (children (flatten_here obj))" "is_object c"
  shows "wt c < wt obj"
proof -
  have 0: "\<forall>c \<in> set (children obj). is_object c \<longrightarrow> wt c < wt obj"
    by (simp add: wt_child)
  have 1: "\<forall>c \<in> set (children (flatten_key ''anyOf'' obj)). is_object c \<longrightarrow> wt c < wt obj"
    using flatten_key_bound [OF 0] by blast
  show ?thesis
    using flatten_key_bound [OF 1] assms by (simp add: flatten_here_def)
qed

function flattenAnyOfOneOf :: "json \<Rightarrow> json" where
  "flattenAnyOfOneOf obj =
     (if \<not> is_object obj then obj
      else descend flattenAnyOfOneOf (flatten_here obj))"
  by pat_completeness auto
termination
  by (relation "measure wt") (auto intro: flatten_here_wt)

definition type_array_here :: "json \<Rightarrow> json" where
  "type_array_here obj =
     (case obj of
        JObj kvs \<Rightarrow>
          (case jget obj ''type'' of
             JArr ts \<Rightarrow>
               (let nonNullTypes = filter (\<lambda>t. t \<noteq> JStr ''null'') ts
                in JObj (obj_set ''type''
                           (if length nonNullTypes > 0 then nonNullTypes ! 0 else JStr ''string'')
                           kvs))
           | _ \<Rightarrow> obj)
      | _ \<Rightarrow> obj)"

lemma type_array_here_wt:
  assumes "c \<in> set (children (type_array_here obj))" "is_object c"
  shows "wt c < wt obj"
proof (cases obj)
  case (JObj kvs)
  show ?thesis
  proof (cases "jget obj ''type''")
    case (JArr ts)
    define nn where "nn = filter (\<lambda>t. t \<noteq> JStr ''null'') ts"
    define new where "new = (if length nn > 0 then nn ! 0 else JStr ''string'')"
    from assms(1) JObj JArr obtain k where "(k, c) \<in> set (obj_set ''type'' new kvs)"
      unfolding nn_def new_def
      by (auto simp: type_array_here_def Let_def children_def simp del: jget.simps)
    then consider "c = new" | "(k, c) \<in> set kvs"
      using set_obj_set [of "''type''" new kvs] by blast
    then show ?thesis
    proof cases
      case 1
      with assms(2) have "length nn > 0" "c = nn ! 0"
        by (auto simp: new_def is_object_def split: if_splits)
      then have "c \<in> set ts" using nth_mem [of 0 nn] by (auto simp: nn_def)
      then have "wt c \<le> sum_list (map wt ts)" by (rule sumw_elem)
      moreover have "wt (JArr ts) \<le> sumw kvs"
        using wt_jget_obj [of kvs "''type''"] JArr JObj by (simp del: jget.simps)
      ultimately show ?thesis using JObj by simp
    next
      case 2
      with sumw_mem [OF 2] JObj show ?thesis by simp
    qed
  qed (use assms JObj wt_child [of c obj] in \<open>auto simp: type_array_here_def\<close>)
qed (use assms wt_child [of c obj] in \<open>auto simp: type_array_here_def\<close>)

function flattenTypeArrays :: "json \<Rightarrow> json" where
  "flattenTypeArrays obj =
     (if \<not> is_object obj then obj
      else descend flattenTypeArrays (type_array_here obj))"
  by pat_completeness auto
termination
  by (relation "measure wt") (auto intro: type_array_here_wt)

subsection \<open>Phase 3: unsupported keywords\<close>

definition UNSUPPORTED_SCHEMA_CONSTRAINTS :: "string list" where
  "UNSUPPORTED_SCHEMA_CONSTRAINTS =
     [''minLength'', ''maxLength'', ''exclusiveMinimum'', ''exclusiveMaximum'',
      ''pattern'', ''minItems'', ''maxItems'', ''format'',
      ''default'', ''examples'',
      ''$schema'', ''$defs'', ''definitions'', ''const'', ''$ref'',
      ''additionalProperties'', ''propertyNames'', ''patternProperties'',
      ''anyOf'', ''oneOf'', ''allOf'', ''not'',
      ''dependencies'', ''dependentSchemas'', ''dependentRequired'',
      ''title'', ''if'', ''then'', ''else'', ''contentMediaType'', ''contentEncoding'',
      ''cornerRadius'', ''fillColor'', ''fontFamily'', ''fontSize'', ''fontWeight'',
      ''gap'', ''padding'', ''strokeColor'', ''strokeThickness'', ''textColor'']"

definition strip_here :: "string list \<Rightarrow> json \<Rightarrow> json" where
  "strip_here keywords obj =
     (case obj of
        JObj kvs \<Rightarrow> JObj (filter (\<lambda>(k, v). k \<notin> set keywords) kvs)
      | _ \<Rightarrow> obj)"

lemma strip_here_wt: "c \<in> set (children (strip_here keywords obj)) \<Longrightarrow> wt c < wt obj"
  using wt_child [of c obj] by (cases obj) (auto simp: strip_here_def children_def)

function removeUnsupportedKeywords :: "json \<Rightarrow> string list \<Rightarrow> json" where
  "removeUnsupportedKeywords obj keywords =
     (if \<not> is_object obj then obj
      else descend (\<lambda>c. removeUnsupportedKeywords c keywords) (strip_here keywords obj))"
  by pat_completeness auto
termination
  by (relation "measure (\<lambda>(obj, keywords). wt obj)") (auto intro: strip_here_wt)

subsection \<open>Phase 4: required fields\<close>

text \<open>
  \<^verbatim>\<open>Object.prototype.hasOwnProperty.call(props, field)\<close>: the field is turned into a
  property key as \<^verbatim>\<open>String\<close> does.
\<close>

definition has_own :: "(rat \<Rightarrow> string) \<Rightarrow> json \<Rightarrow> json \<Rightarrow> bool" where
  "has_own numstr props field =
     (let key = js_String numstr field in
      case props of
        JObj kvs \<Rightarrow> key \<in> fst ` set kvs
      | JArr xs \<Rightarrow> key \<in> set (map dec [0..<length xs]) \<or> key = ''length''
      | JStr s \<Rightarrow> key \<in> set (map dec [0..<length s]) \<or> key = ''length''
      | _ \<Rightarrow> False)"

definition cleanup_required_here :: "(rat \<Rightarrow> string) \<Rightarrow> json \<Rightarrow> json" where
  "cleanup_required_here numstr obj =
     (case obj of
        JObj kvs \<Rightarrow>
          (case jget obj ''required'' of
             JArr rs \<Rightarrow>
               (if truthy (jget obj ''properties'') then
                  (let validRequired = filter (has_own numstr (jget obj ''properties'')) rs
                   in if length validRequired = 0 then JObj (obj_without ''required'' kvs)
                      else JObj (obj_set ''required'' (JArr validRequired) kvs))
                else obj)
           | _ \<Rightarrow> obj)
      | _ \<Rightarrow> obj)"

lemma wt_filter: "sum_list (map wt (filter p xs)) \<le> sum_list (map wt xs)"
  by (induction xs) auto

lemma cleanup_required_here_wt:
  assumes "c \<in> set (children (cleanup_required_here numstr obj))"
  shows "wt c < wt obj"
proof (cases obj)
  case (JObj kvs)
  show ?thesis
  proof (cases "jget obj ''required''")
    case (JArr rs)
    define valid where "valid = filter (has_own numstr (jget obj ''properties'')) rs"
    have "cleanup_required_here numstr obj = obj
        \<or> cleanup_required_here numstr obj = JObj (obj_without ''required'' kvs)
        \<or> cleanup_required_here numstr obj = JObj (obj_set ''required'' (JArr valid) kvs)"
      using JObj JArr unfolding valid_def
      by (simp add: cleanup_required_here_def Let_def del: jget.simps)
    with assms JObj have "c \<in> snd ` set kvs \<or> c \<in> snd ` set (obj_without ''required'' kvs)
        \<or> c \<in> snd ` set (obj_set ''required'' (JArr valid) kvs)"
      by (auto simp: children_def)
    then have "\<exists>k. (k, c) \<in> set kvs \<or> (k, c) \<in> set (obj_without ''required'' kvs)
        \<or> (k, c) \<in> set (obj_set ''required'' (JArr valid) kvs)"
      by (elim disjE imageE) (metis prod.collapse)+
    then obtain k where
      "(k, c) \<in> set kvs \<or> (k, c) \<in> set (obj_set ''required'' (JArr valid) kvs)"
      using set_obj_without [of "''required''" kvs] by blast
    then consider "c = JArr valid" | "(k, c) \<in> set kvs"
      using set_obj_set [of "''required''" "JArr valid" kvs] by blast
    then show ?thesis
    proof cases
      case 1
      have "wt (JArr valid) \<le> wt (JArr rs)" using wt_filter [of _ rs] by (simp add: valid_def)
      moreover have "wt (JArr rs) \<le> sumw kvs"
        using wt_jget_obj [of kvs "''required''"] JArr JObj by (simp del: jget.simps)
      ultimately show ?thesis using 1 JObj by simp
    next
      case 2
      with sumw_mem [OF 2] JObj show ?thesis by simp
    qed
  qed (use assms JObj wt_child [of c obj] in \<open>auto simp: cleanup_required_here_def\<close>)
qed (use assms wt_child [of c obj] in \<open>auto simp: cleanup_required_here_def\<close>)

function cleanupRequired :: "(rat \<Rightarrow> string) \<Rightarrow> json \<Rightarrow> json" where
  "cleanupRequired numstr obj =
     (if \<not> is_object obj then obj
      else descend (cleanupRequired numstr) (cleanup_required_here numstr obj))"
  by pat_completeness auto
termination
  by (relation "measure (\<lambda>(numstr, obj). wt obj)") (auto intro: cleanup_required_here_wt)

subsection \<open>Phase 5: placeholders for empty object schemas\<close>

definition reason_schema :: json where
  "reason_schema =
     JObj [(''type'', JStr ''string''),
           (''description'', JStr ''Brief explanation of why you are calling this tool'')]"

definition placeholder_properties :: json where
  "placeholder_properties = JObj [(''reason'', reason_schema)]"

definition placeholder_required :: json where
  "placeholder_required = JArr [JStr ''reason'']"

definition placeholder_here :: "json \<Rightarrow> json" where
  "placeholder_here obj =
     (case obj of
        JObj kvs \<Rightarrow>
          (if jget obj ''type'' = JStr ''object''
              \<and> (\<not> truthy (jget obj ''properties'')
                   \<or> length (own_entries (jget obj ''properties'')) = 0)
           then JObj (obj_set ''required'' placeholder_required
                        (obj_set ''properties'' placeholder_properties kvs))
           else obj)
      | _ \<Rightarrow> obj)"

text \<open>
  The measure of the last pass: the placeholder may weigh more than the schema that
  receives it, so it and its parts are counted apart.
\<close>

definition placeholder_wt :: "json \<Rightarrow> nat" where
  "placeholder_wt v =
     (if v = placeholder_properties then 1
      else if v = reason_schema \<or> v = placeholder_required then 0
      else 2 + wt v)"

lemma placeholder_here_wt:
  assumes "is_object obj" "c \<in> set (children (placeholder_here obj))" "is_object c"
  shows "placeholder_wt c < placeholder_wt obj"
proof -
  consider "obj = placeholder_properties" | "obj = reason_schema" | "obj = placeholder_required"
    | "obj \<noteq> placeholder_properties" "obj \<noteq> reason_schema" "obj \<noteq> placeholder_required"
    by blast
  then show ?thesis
  proof cases
    case 1
    with assms(2) have "c = reason_schema"
      by (simp add: placeholder_properties_def placeholder_here_def children_def)
    with 1 show ?thesis
      by (simp add: placeholder_wt_def placeholder_properties_def reason_schema_def)
  next
    case 2
    with assms(2,3) show ?thesis
      by (auto simp: reason_schema_def placeholder_here_def children_def is_object_def)
  next
    case 3
    with assms(2,3) show ?thesis
      by (auto simp: placeholder_required_def placeholder_here_def children_def is_object_def)
  next
    case 4
    then have m: "placeholder_wt obj = 2 + wt obj" by (simp add: placeholder_wt_def)
    have le: "placeholder_wt c \<le> 2 + wt c" by (simp add: placeholder_wt_def)
    have old: "c \<in> set (children obj) \<Longrightarrow> ?thesis"
      using wt_child [of c obj] m le by simp
    show ?thesis
    proof (cases obj)
      case (JObj kvs)
      show ?thesis
      proof (cases "placeholder_here obj = obj")
        case True
        with assms(2) old show ?thesis by simp
      next
        case False
        then have "placeholder_here obj =
            JObj (obj_set ''required'' placeholder_required
                    (obj_set ''properties'' placeholder_properties kvs))"
          using JObj by (simp add: placeholder_here_def del: jget.simps split: if_splits)
        with assms(2) have "c \<in> snd ` set (obj_set ''required'' placeholder_required
                    (obj_set ''properties'' placeholder_properties kvs))"
          by (simp add: children_def)
        then obtain k where "(k, c) \<in> set (obj_set ''required'' placeholder_required
                    (obj_set ''properties'' placeholder_properties kvs))"
          by (elim imageE) (metis prod.collapse)
        then have "(k, c) \<in> insert (''required'', placeholder_required)
            (insert (''properties'', placeholder_properties) (set kvs))"
          using set_obj_set [of "''required''" placeholder_required
              "obj_set ''properties'' placeholder_properties kvs"]
            set_obj_set [of "''properties''" placeholder_properties kvs] by blast
        then consider "c = placeholder_required" | "c = placeholder_properties" | "(k, c) \<in> set kvs"
          by auto
        then show ?thesis
        proof cases
          case 1
          with m show ?thesis by (simp add: placeholder_wt_def placeholder_required_def placeholder_properties_def)
        next
          case 2
          with m show ?thesis by (simp add: placeholder_wt_def)
        next
          case 3
          then have "c \<in> set (children obj)" using JObj by (force simp: children_def)
          then show ?thesis by (rule old)
        qed
      qed
    qed (use assms(2) old in \<open>auto simp: placeholder_here_def\<close>)
  qed
qed

function addPlaceholders :: "json \<Rightarrow> json" where
  "addPlaceholders obj =
     (if \<not> is_object obj then obj
      else descend addPlaceholders (placeholder_here obj))"
  by pat_completeness auto
termination
  by (relation "measure placeholder_wt") (auto intro: placeholder_here_wt)

subsection \<open>The cleaning pass\<close>

definition cleanJSONSchemaForAntigravity :: "(rat \<Rightarrow> string) \<Rightarrow> json \<Rightarrow> json option" where
  "cleanJSONSchemaForAntigravity numstr schema =
     (if \<not> truthy schema \<or> \<not> is_object schema then Some schema
      else
        (case mergeAllOf (convertEnumValuesToStrings numstr (convertConstToEnum schema)) of
           None \<Rightarrow> None
         | Some merged \<Rightarrow>
             Some (addPlaceholders
                     (cleanupRequired numstr
                        (removeUnsupportedKeywords
                           (flattenTypeArrays (flattenAnyOfOneOf merged))
                           UNSUPPORTED_SCHEMA_CONSTRAINTS)))))"

definition scenario_schema :: json where
  "scenario_schema =
     JObj [(''type'', JStr ''object''),
           (''properties'', JObj [(''x'', JObj [(''const'', JNum 5)])]),
           (''anyOf'', JArr [JObj [(''type'', JStr ''string'')],
                            JObj [(''type'', JStr ''object''), (''properties'', JObj [])]])]"

section \<open>OpenAI to Kiro: request translator\<close>

subsection \<open>Client request (OpenAI chat completions)\<close>

text \<open>
  Message text is a sequence of UTF-16 code units, as \<^verbatim>\<open>trim\<close> needs it; roles, block
  types, identifiers and names are plain strings.  The content of a
  \<^verbatim>\<open>tool_result\<close> block is an array of parts, of which the code reads the text, a
  string, or any other value.
\<close>

datatype result_content = RParts "utf16 option list" | RString utf16 | ROther

record fn_call =
  fc_name :: "string option"
  fc_arguments :: json

text \<open>
  A content block of a message, or one entry of \<^verbatim>\<open>msg.tool_calls\<close>: the fields the
  translator reads, absent ones as \<open>None\<close>, \<open>JUndefined\<close> or \<open>ROther\<close>.
\<close>

record in_part =
  ip_type :: "string option"
  ip_text :: "utf16 option"
  ip_tool_use_id :: "string option"
  ip_content :: result_content
  ip_id :: "string option"
  ip_function :: "fn_call option"
  ip_name :: "string option"
  ip_input :: json

datatype msg_content = KString utf16 | KParts "in_part list" | KOther

record in_message =
  km_role :: string
  km_content :: msg_content
  km_tool_call_id :: "string option"
  km_tool_calls :: "in_part list option"

record tool_fn =
  tf_name :: "string option"
  tf_description :: "utf16 option"
  tf_parameters :: json

record in_tool =
  t_function :: "tool_fn option"
  t_name :: "string option"
  t_description :: "utf16 option"
  t_parameters :: json
  t_input_schema :: json

subsection \<open>Upstream request (Kiro conversation state)\<close>

record tool_spec =
  ts_name :: "string option"
  ts_description :: utf16
  ts_inputSchema :: json

record tool_result =
  res_toolUseId :: "string option"
  res_status :: string
  res_content :: "utf16 list"

text \<open>\<^verbatim>\<open>userInputMessageContext\<close>: each of its two properties may be absent.\<close>

record message_context =
  ctx_toolResults :: "tool_result list option"
  ctx_tools :: "tool_spec list option"

record user_input_message =
  uim_content :: utf16
  uim_modelId :: string
  uim_context :: "message_context option"

record tool_use =
  tu_toolUseId :: string
  tu_name :: "string option"
  tu_input :: json

record assistant_response_message =
  arm_content :: utf16
  arm_toolUses :: "tool_use list option"

datatype kiro_item =
    UserInputMessage user_input_message
  | AssistantResponseMessage assistant_response_message

subsection \<open>Small JavaScript operations\<close>

text \<open>\<^verbatim>\<open>xs.join(sep)\<close> on text.\<close>

fun join_text :: "utf16 \<Rightarrow> utf16 list \<Rightarrow> utf16" where
  "join_text sep [] = []"
| "join_text sep [x] = x"
| "join_text sep (x # y # ys) = x @ sep @ join_text sep (y # ys)"

text \<open>\<^verbatim>\<open>a || b\<close> on strings that may be absent: the empty string and \<open>undefined\<close> are falsy.\<close>

definition or_opt :: "'a list option \<Rightarrow> 'a list option \<Rightarrow> 'a list option" where
  "or_opt a b = (case a of Some s \<Rightarrow> if s \<noteq> [] then a else b | None \<Rightarrow> b)"

definition or_text :: "utf16 \<Rightarrow> utf16 \<Rightarrow> utf16" where
  "or_text a b = (if a \<noteq> [] then a else b)"

text \<open>\<^verbatim>\<open>c.text || ""\<close>, and an array element as \<^verbatim>\<open>join\<close> prints it.\<close>

definition text_or_empty :: "utf16 option \<Rightarrow> utf16" where
  "text_or_empty t = (case t of Some s \<Rightarrow> s | None \<Rightarrow> [])"

subsection \<open>Tool specifications\<close>

text \<open>The function given to \<^verbatim>\<open>tools.map\<close> in \<^verbatim>\<open>flushPending\<close>.\<close>

definition toolSpecification :: "in_tool \<Rightarrow> tool_spec" where
  "toolSpecification t =
     (let name = or_opt (Option.bind (t_function t) tf_name) (t_name t);
          description0 =
            (case or_opt (or_opt (Option.bind (t_function t) tf_description) (t_description t))
                    (Some []) of
               Some d \<Rightarrow> d | None \<Rightarrow> []);
          description =
            (if trim description0 = []
             then js ''Tool: '' @ js (case name of Some n \<Rightarrow> n | None \<Rightarrow> ''undefined'')
             else description0)
      in \<lparr>ts_name = name,
          ts_description = description,
          ts_inputSchema =
            js_or (case t_function t of Some f \<Rightarrow> tf_parameters f | None \<Rightarrow> JUndefined)
              (js_or (t_parameters t) (js_or (t_input_schema t) (JObj [])))\<rparr>)"

subsection \<open>The state of the conversion loop\<close>

text \<open>
  \<^verbatim>\<open>currentMessage\<close> is a reference to a message object.  During the loop that object
  is always an element of \<^verbatim>\<open>history\<close>, so the reference is kept as its position
  there, \<open>None\<close> for \<^verbatim>\<open>null\<close>.  \<open>uuid_calls\<close> counts the calls of \<^verbatim>\<open>uuidv4\<close>.
\<close>

record cm_state =
  history :: "kiro_item list"
  currentMessage :: "nat option"
  pendingUserContent :: "utf16 list"
  pendingAssistantContent :: "utf16 list"
  pendingToolResults :: "tool_result list"
  currentRole :: "string option"
  uuid_calls :: nat

definition cm_init :: cm_state where
  "cm_init =
     \<lparr>history = [], currentMessage = None, pendingUserContent = [],
      pendingAssistantContent = [], pendingToolResults = [], currentRole = None,
      uuid_calls = 0\<rparr>"

definition flushPending :: "in_tool list \<Rightarrow> cm_state \<Rightarrow> cm_state" where
  "flushPending tools st =
     (if currentRole st = Some ''user'' then
        (let content = or_text (trim (join_text [10, 10] (pendingUserContent st))) (js ''continue'');
             context0 =
               (if length (pendingToolResults st) > 0
                then Some \<lparr>ctx_toolResults = Some (pendingToolResults st), ctx_tools = None\<rparr>
                else None);
             context1 =
               (if length tools > 0 \<and> length (history st) = 0
                then Some ((case context0 of
                              None \<Rightarrow> \<lparr>ctx_toolResults = None, ctx_tools = None\<rparr>
                            | Some c \<Rightarrow> c)
                           \<lparr>ctx_tools := Some (map toolSpecification tools)\<rparr>)
                else context0);
             userMsg = UserInputMessage
                         \<lparr>uim_content = content, uim_modelId = [], uim_context = context1\<rparr>
         in st\<lparr>history := history st @ [userMsg],
                currentMessage := Some (length (history st)),
                pendingUserContent := [],
                pendingToolResults := []\<rparr>)
      else if currentRole st = Some ''assistant'' then
        (let content = or_text (trim (join_text [10, 10] (pendingAssistantContent st))) (js ''...'');
             assistantMsg = AssistantResponseMessage \<lparr>arm_content = content, arm_toolUses = None\<rparr>
         in st\<lparr>history := history st @ [assistantMsg],
                pendingAssistantContent := []\<rparr>)
      else st)"

subsection \<open>One message of the request\<close>

definition tool_result_of_block :: "in_part \<Rightarrow> tool_result" where
  "tool_result_of_block block =
     \<lparr>res_toolUseId = ip_tool_use_id block,
      res_status = ''success'',
      res_content =
        [case ip_content block of
           RParts cs \<Rightarrow> join_text [10] (map text_or_empty cs)
         | RString s \<Rightarrow> s
         | ROther \<Rightarrow> []]\<rparr>"

definition user_branch :: "in_message \<Rightarrow> cm_state \<Rightarrow> cm_state" where
  "user_branch msg st =
     (let content =
            (case km_content msg of
               KString s \<Rightarrow> s
             | KParts cs \<Rightarrow>
                 join_text [10]
                   (map (\<lambda>c. text_or_empty (ip_text c))
                      (filter (\<lambda>c. ip_type c = Some ''text'' \<or> text_or_empty (ip_text c) \<noteq> []) cs))
             | KOther \<Rightarrow> []);
          st1 =
            (case km_content msg of
               KParts cs \<Rightarrow>
                 st\<lparr>pendingToolResults := pendingToolResults st
                        @ map tool_result_of_block
                            (filter (\<lambda>c. ip_type c = Some ''tool_result'') cs)\<rparr>
             | _ \<Rightarrow> st)
      in if km_role msg = ''tool'' then
           st1\<lparr>pendingToolResults := pendingToolResults st1
                  @ [\<lparr>res_toolUseId = km_tool_call_id msg,
                       res_status = ''success'',
                       res_content = [case km_content msg of KString s \<Rightarrow> s | _ \<Rightarrow> []]\<rparr>]\<rparr>
         else if content \<noteq> [] then
           st1\<lparr>pendingUserContent := pendingUserContent st1 @ [content]\<rparr>
         else st1)"

text \<open>
  One element of \<^verbatim>\<open>toolUses.map\<close>.  \<^verbatim>\<open>uuidv4\<close> is a parameter, read at the number of
  calls made so far; \<^verbatim>\<open>JSON.parse\<close> is the parameter \<open>parse_json\<close>, \<open>None\<close> where
  it throws.
\<close>

definition convert_tool_use ::
  "(nat \<Rightarrow> string) \<Rightarrow> (string \<Rightarrow> json option) \<Rightarrow> in_part \<Rightarrow> nat \<Rightarrow> (tool_use \<times> nat) option" where
  "convert_tool_use uuidv4 parse_json tc n =
     (let (toolUseId, n1) =
            (case or_opt (ip_id tc) None of
               Some i \<Rightarrow> (i, n)
             | None \<Rightarrow> (uuidv4 n, n + 1))
      in case ip_function tc of
           Some f \<Rightarrow>
             (case fc_arguments f of
                JStr s \<Rightarrow>
                  (case parse_json s of
                     None \<Rightarrow> None
                   | Some v \<Rightarrow>
                       Some (\<lparr>tu_toolUseId = toolUseId, tu_name = fc_name f, tu_input = v\<rparr>, n1))
              | a \<Rightarrow>
                  Some (\<lparr>tu_toolUseId = toolUseId, tu_name = fc_name f,
                         tu_input = js_or a (JObj [])\<rparr>, n1))
         | None \<Rightarrow>
             Some (\<lparr>tu_toolUseId = toolUseId, tu_name = ip_name tc,
                    tu_input = js_or (ip_input tc) (JObj [])\<rparr>, n1))"

fun convert_tool_uses ::
  "(nat \<Rightarrow> string) \<Rightarrow> (string \<Rightarrow> json option) \<Rightarrow> in_part list \<Rightarrow> nat
     \<Rightarrow> (tool_use list \<times> nat) option" where
  "convert_tool_uses uuidv4 parse_json [] n = Some ([], n)"
| "convert_tool_uses uuidv4 parse_json (tc # tcs) n =
     (case convert_tool_use uuidv4 parse_json tc n of
        None \<Rightarrow> None
      | Some (u, n1) \<Rightarrow>
          (case convert_tool_uses uuidv4 parse_json tcs n1 of
             None \<Rightarrow> None
           | Some (us, n2) \<Rightarrow> Some (u # us, n2)))"

definition assistant_branch ::
  "(nat \<Rightarrow> string) \<Rightarrow> (string \<Rightarrow> json option) \<Rightarrow> in_tool list \<Rightarrow> in_message \<Rightarrow> cm_state
     \<Rightarrow> cm_state option" where
  "assistant_branch uuidv4 parse_json tools msg st =
     (let textContent =
            (case km_content msg of
               KParts cs \<Rightarrow>
                 trim (join_text [10]
                         (map (\<lambda>b. text_or_empty (ip_text b))
                            (filter (\<lambda>c. ip_type c = Some ''text'') cs)))
             | KString s \<Rightarrow> trim s
             | KOther \<Rightarrow> []);
          toolUses0 =
            (case km_content msg of
               KParts cs \<Rightarrow> filter (\<lambda>c. ip_type c = Some ''tool_use'') cs
             | _ \<Rightarrow> []);
          toolUses =
            (case km_tool_calls msg of
               Some tcs \<Rightarrow> if length tcs > 0 then tcs else toolUses0
             | None \<Rightarrow> toolUses0);
          st1 =
            (if textContent \<noteq> []
             then st\<lparr>pendingAssistantContent := pendingAssistantContent st @ [textContent]\<rparr>
             else st)
      in if length toolUses > 0 then
           (let st2 = flushPending tools st1
            in if history st2 = [] then Some (st2\<lparr>currentRole := None\<rparr>)
               else
                 (case last (history st2) of
                    AssistantResponseMessage a \<Rightarrow>
                      (case convert_tool_uses uuidv4 parse_json toolUses (uuid_calls st2) of
                         None \<Rightarrow> None
                       | Some (us, n) \<Rightarrow>
                           Some (st2\<lparr>history := butlast (history st2)
                                          @ [AssistantResponseMessage (a\<lparr>arm_toolUses := Some us\<rparr>)],
                                       uuid_calls := n,
                                       currentRole := None\<rparr>))
                  | UserInputMessage u \<Rightarrow> Some (st2\<lparr>currentRole := None\<rparr>)))
         else Some st1)"

text \<open>The body of the loop over \<^verbatim>\<open>messages\<close>.\<close>

definition cm_step ::
  "(nat \<Rightarrow> string) \<Rightarrow> (string \<Rightarrow> json option) \<Rightarrow> in_tool list \<Rightarrow> in_message \<Rightarrow> cm_state
     \<Rightarrow> cm_state option" where
  "cm_step uuidv4 parse_json tools msg st =
     (let role = (if km_role msg = ''system'' \<or> km_role msg = ''tool'' then ''user'' else km_role msg);
          st1 = (if Some role \<noteq> currentRole st \<and> currentRole st \<noteq> None
                 then flushPending tools st else st);
          st2 = st1\<lparr>currentRole := Some role\<rparr>
      in if role = ''user'' then Some (user_branch msg st2)
         else if role = ''assistant'' then assistant_branch uuidv4 parse_json tools msg st2
         else Some st2)"

fun cm_loop ::
  "(nat \<Rightarrow> string) \<Rightarrow> (string \<Rightarrow> json option) \<Rightarrow> in_tool list \<Rightarrow> in_message list \<Rightarrow> cm_state
     \<Rightarrow> cm_state option" where
  "cm_loop uuidv4 parse_json tools [] st = Some st"
| "cm_loop uuidv4 parse_json tools (msg # msgs) st =
     (case cm_step uuidv4 parse_json tools msg st of
        None \<Rightarrow> None
      | Some st1 \<Rightarrow> cm_loop uuidv4 parse_json tools msgs st1)"

text \<open>The turns built from the messages: \<^verbatim>\<open>history\<close> after the loop and the last flush.\<close>

definition cm_turns ::
  "(nat \<Rightarrow> string) \<Rightarrow> (string \<Rightarrow> json option) \<Rightarrow> in_tool list \<Rightarrow> in_message list
     \<Rightarrow> cm_state option" where
  "cm_turns uuidv4 parse_json tools messages =
     (case cm_loop uuidv4 parse_json tools messages cm_init of
        None \<Rightarrow> None
      | Some st \<Rightarrow> Some (if currentRole st \<noteq> None then flushPending tools st else st))"

subsection \<open>After the loop\<close>

text \<open>
  After the loop \<^verbatim>\<open>currentMessage\<close> is \<^verbatim>\<open>null\<close>, or the object popped off
  \<^verbatim>\<open>history\<close>, or still an element of \<^verbatim>\<open>history\<close>: then what is done to the one is
  done to the other.
\<close>

datatype message_ref = Null | InHistory nat | Popped kiro_item

definition is_user :: "kiro_item \<Rightarrow> bool" where
  "is_user item = (case item of UserInputMessage u \<Rightarrow> True | AssistantResponseMessage a \<Rightarrow> False)"

text \<open>\<^verbatim>\<open>item?.userInputMessage?.userInputMessageContext?.tools\<close>.\<close>

definition tools_of :: "kiro_item \<Rightarrow> tool_spec list option" where
  "tools_of item =
     (case item of
        UserInputMessage u \<Rightarrow> Option.bind (uim_context u) ctx_tools
      | AssistantResponseMessage a \<Rightarrow> None)"

definition deref :: "kiro_item list \<Rightarrow> message_ref \<Rightarrow> kiro_item option" where
  "deref hist r =
     (case r of Null \<Rightarrow> None | InHistory j \<Rightarrow> Some (hist ! j) | Popped item \<Rightarrow> Some item)"

text \<open>
  \<^verbatim>\<open>currentMessage.userInputMessage.userInputMessageContext.tools = ts\<close>, the context
  created when absent.  The write throws on \<^verbatim>\<open>null\<close> and on a message that is not a
  user message.
\<close>

definition set_tools :: "tool_spec list \<Rightarrow> kiro_item \<Rightarrow> kiro_item option" where
  "set_tools ts item =
     (case item of
        UserInputMessage u \<Rightarrow>
          Some (UserInputMessage
                  (u\<lparr>uim_context :=
                       Some ((case uim_context u of
                                None \<Rightarrow> \<lparr>ctx_toolResults = None, ctx_tools = None\<rparr>
                              | Some c \<Rightarrow> c)
                             \<lparr>ctx_tools := Some ts\<rparr>)\<rparr>))
      | AssistantResponseMessage a \<Rightarrow> None)"

definition move_tools ::
  "kiro_item list \<times> message_ref \<Rightarrow> (kiro_item list \<times> message_ref) option" where
  "move_tools hr =
     (case hr of (hist, r) \<Rightarrow>
        (case (if hist = [] then None else tools_of (hist ! 0)) of
           None \<Rightarrow> Some (hist, r)
         | Some ts \<Rightarrow>
             (case r of
                Null \<Rightarrow> None
              | Popped item \<Rightarrow>
                  (if tools_of item \<noteq> None then Some (hist, r)
                   else map_option (\<lambda>item'. (hist, Popped item')) (set_tools ts item))
              | InHistory j \<Rightarrow>
                  (if tools_of (hist ! j) \<noteq> None then Some (hist, r)
                   else map_option (\<lambda>item'. (hist[j := item'], r)) (set_tools ts (hist ! j))))))"

text \<open>The function given to \<^verbatim>\<open>history.forEach\<close>.\<close>

definition clean_item :: "string \<Rightarrow> kiro_item \<Rightarrow> kiro_item" where
  "clean_item model_id item =
     (case item of
        UserInputMessage u \<Rightarrow>
          (let u1 = (case uim_context u of
                       Some c \<Rightarrow>
                         (if ctx_tools c \<noteq> None
                          then u\<lparr>uim_context := Some (c\<lparr>ctx_tools := None\<rparr>)\<rparr> else u)
                     | None \<Rightarrow> u);
               u2 = (case uim_context u1 of
                       Some c \<Rightarrow>
                         (if ctx_toolResults c = None \<and> ctx_tools c = None
                          then u1\<lparr>uim_context := None\<rparr> else u1)
                     | None \<Rightarrow> u1);
               u3 = (if uim_modelId u2 = [] then u2\<lparr>uim_modelId := model_id\<rparr> else u2)
           in UserInputMessage u3)
      | AssistantResponseMessage a \<Rightarrow> item)"

definition convertMessages ::
  "(nat \<Rightarrow> string) \<Rightarrow> (string \<Rightarrow> json option) \<Rightarrow> in_message list \<Rightarrow> in_tool list \<Rightarrow> string
     \<Rightarrow> (kiro_item list \<times> kiro_item option) option" where
  "convertMessages uuidv4 parse_json messages tools model_id =
     (case cm_turns uuidv4 parse_json tools messages of
        None \<Rightarrow> None
      | Some st \<Rightarrow>
          (let popped =
                 (if length (history st) > 0 \<and> is_user (last (history st))
                  then (butlast (history st), Popped (last (history st)))
                  else (history st,
                        case currentMessage st of None \<Rightarrow> Null | Some j \<Rightarrow> InHistory j))
           in case move_tools popped of
                None \<Rightarrow> None
              | Some (hist, r) \<Rightarrow>
                  (let cleaned = map (clean_item model_id) hist
                   in Some (cleaned, deref cleaned r))))"

subsection \<open>A conversation of three turns with one tool\<close>

definition text_message :: "string \<Rightarrow> string \<Rightarrow> in_message" where
  "text_message role s =
     \<lparr>km_role = role, km_content = KString (js s), km_tool_call_id = None, km_tool_calls = None\<rparr>"

definition example_tool :: in_tool where
  "example_tool =
     \<lparr>t_function = Some \<lparr>tf_name = Some ''lookup'', tf_description = Some (js ''Look it up''),
                          tf_parameters = JObj [(''type'', JStr ''object'')]\<rparr>,
      t_name = None, t_description = None, t_parameters = JUndefined,
      t_input_schema = JUndefined\<rparr>"

definition example_uuidv4 :: "nat \<Rightarrow> string" where
  "example_uuidv4 n = ''uuid-'' @ dec n"

definition example_parse_json :: "string \<Rightarrow> json option" where
  "example_parse_json s = (if s = ''{}'' then Some (JObj []) else None)"

definition example_conversation :: "in_message list" where
  "example_conversation =
     [text_message ''user'' ''a'', text_message ''assistant'' ''b'', text_message ''user'' ''c'']"

subsection \<open>What the loop keeps true\<close>

text \<open>The roles that the loop turns into a user turn.\<close>

definition user_side :: "string \<Rightarrow> bool" where
  "user_side role \<longleftrightarrow> role = ''user'' \<or> role = ''system'' \<or> role = ''tool''"

text \<open>A turn carries no tools or the specifications of all the tools of the request.\<close>

definition specs_ok :: "in_tool list \<Rightarrow> kiro_item \<Rightarrow> bool" where
  "specs_ok tools item \<longleftrightarrow>
     tools_of item = None \<or> tools_of item = Some (map toolSpecification tools)"

text \<open>
  The first turn is a user turn: either it is still pending, or it is in \<^verbatim>\<open>history\<close>
  and carries the tools.
\<close>

definition first_turn_user :: "in_tool list \<Rightarrow> cm_state \<Rightarrow> bool" where
  "first_turn_user tools st \<longleftrightarrow>
     (if history st = [] then currentRole st = Some ''user''
      else is_user (hd (history st))
           \<and> tools_of (hd (history st)) = Some (map toolSpecification tools))"

section \<open>Properties of the OpenAI to Claude response translator\<close>

lemmas oc_defs = openaiToClaudeResponse_def handle_finish_def handle_tool_calls_def
  handle_content_def handle_reasoning_def send_message_start_def stopTextBlock_def
  stopThinkingBlock_def truthy_str_def or_str_def the_default_def convertFinishReason_def
  Let_def

text \<open>
  Claim C1.  Feeding the two chunks of the documented scenario, content \<open>Hel\<close> and then
  content \<open>lo\<close> with finish reason \<open>stop\<close>, into a fresh streaming state produces
  exactly: \<open>message_start\<close>, \<open>content_block_start\<close> of a text block,
  \<open>content_block_delta\<close> with text \<open>Hel\<close>, \<open>content_block_delta\<close> with text \<open>lo\<close>,
  \<open>content_block_stop\<close>, \<open>message_delta\<close> with stop reason \<open>end_turn\<close>,
  \<open>message_stop\<close>, in that order.
\<close>

theorem C1_two_chunk_scenario:
  assumes "fresh st"
  shows "fst (translate_stream now1 now2 [scenario_chunk1, scenario_chunk2] st) =
     [MessageStart (pick_message_id now1 now2 scenario_chunk1) ''unknown'',
      ContentBlockStart (Some 0) (TextBlock []),
      ContentBlockDelta (Some 0) (TextDelta ''Hel''),
      ContentBlockDelta (Some 0) (TextDelta ''lo''),
      ContentBlockStop (Some 0),
      MessageDelta ''end_turn'',
      MessageStop]"
  using assms
  by (simp add: fresh_def scenario_chunk1_def scenario_chunk2_def oc_defs)

theorem C1_two_chunk_scenario_witness:
  "fresh initState \<and>
   fst (translate_stream ''1700000000000'' ''1700000000001''
          [scenario_chunk1, scenario_chunk2] initState) =
     [MessageStart (Some ''msg_1700000000000'') ''unknown'',
      ContentBlockStart (Some 0) (TextBlock []),
      ContentBlockDelta (Some 0) (TextDelta ''Hel''),
      ContentBlockDelta (Some 0) (TextDelta ''lo''),
      ContentBlockStop (Some 0),
      MessageDelta ''end_turn'',
      MessageStop]"
proof -
  have f: "fresh initState"
    by (simp add: fresh_def initState_def)
  have "pick_message_id ''1700000000000'' ''1700000000001'' scenario_chunk1
          = Some ''msg_1700000000000''"
    by (simp add: pick_message_id_def scenario_chunk1_def or_str_def truthy_str_def
          the_default_def)
  with f C1_two_chunk_scenario [OF f, of "''1700000000000''" "''1700000000001''"]
  show ?thesis by simp
qed

text \<open>
  Claim C3.  The claim asks for at most one terminal pair (\<open>message_delta\<close> with a stop
  reason, then \<open>message_stop\<close>) whatever the upstream sends.  The finish branch of the
  translator has no guard: on a stream of two chunks that both carry a finish reason the
  terminal pair is emitted twice.
\<close>

theorem C3_double_finish_emits_two_terminal_pairs:
  "fst (translate_stream now1 now2 [scenario_chunk2, scenario_chunk2] initState) =
     [MessageStart (pick_message_id now1 now2 scenario_chunk2) ''unknown'',
      ContentBlockStart (Some 0) (TextBlock []),
      ContentBlockDelta (Some 0) (TextDelta ''lo''),
      ContentBlockStop (Some 0),
      MessageDelta ''end_turn'', MessageStop,
      ContentBlockStart (Some 1) (TextBlock []),
      ContentBlockDelta (Some 1) (TextDelta ''lo''),
      ContentBlockStop (Some 1),
      MessageDelta ''end_turn'', MessageStop]"
  by (simp add: initState_def scenario_chunk2_def oc_defs)

theorem C3_double_finish_emits_two_terminal_pairs_witness:
  "fst (translate_stream ''1700000000000'' ''1700000000001''
          [scenario_chunk2, scenario_chunk2] initState) =
     [MessageStart (Some ''msg_1700000000000'') ''unknown'',
      ContentBlockStart (Some 0) (TextBlock []),
      ContentBlockDelta (Some 0) (TextDelta ''lo''),
      ContentBlockStop (Some 0),
      MessageDelta ''end_turn'', MessageStop,
      ContentBlockStart (Some 1) (TextBlock []),
      ContentBlockDelta (Some 1) (TextDelta ''lo''),
      ContentBlockStop (Some 1),
      MessageDelta ''end_turn'', MessageStop]"
proof -
  have "pick_message_id ''1700000000000'' ''1700000000001'' scenario_chunk2
          = Some ''msg_1700000000000''"
    by (simp add: pick_message_id_def scenario_chunk2_def or_str_def truthy_str_def
          the_default_def)
  with C3_double_finish_emits_two_terminal_pairs
         [of "''1700000000000''" "''1700000000001''"]
  show ?thesis by simp
qed

text \<open>
  Claim C9.  A tool-call argument delta for an index that was never opened is a no-op in
  both translators.  OpenAI to Claude: an arguments fragment without an id whose index has
  no entry in the tool-call map pushes no event and leaves the state as it is.  Claude to
  OpenAI: an \<open>input_json_delta\<close> whose index has no entry returns \<open>null\<close> and leaves the
  state as it is.  Neither function has a failing branch on these inputs.
\<close>

theorem C9_orphan_tool_delta_is_noop:
  "(\<not> truthy_str (tc_id tc) \<and> map_get (toolCalls st) (the_default 0 (tc_index tc)) = None
      \<longrightarrow> handle_tool_call tc (st, results) = (st, results))
   \<and> (c_type ch = Some ''content_block_delta''
        \<and> Option.bind (c_delta ch) d_type = Some ''input_json_delta''
        \<and> map_get (co_toolCalls cst) (c_index ch) = None
      \<longrightarrow> claudeToOpenAIResponse now_ms now_s (Some ch) cst = (None, cst))"
  by (simp add: handle_tool_call_def tool_call_open_def tool_call_arguments_def
        claudeToOpenAIResponse_def on_content_block_delta_def Let_def)

theorem C9_orphan_tool_delta_is_noop_witness:
  "handle_tool_call orphan_fragment (initState, []) = (initState, [])
   \<and> claudeToOpenAIResponse ''1700000000000'' 1700000000 (Some orphan_json_delta) co_initState
       = (None, co_initState)"
proof -
  have a: "\<not> truthy_str (tc_id orphan_fragment)
       \<and> map_get (toolCalls initState) (the_default 0 (tc_index orphan_fragment)) = None"
    by (simp add: orphan_fragment_def initState_def truthy_str_def map_get_def)
  have b: "c_type orphan_json_delta = Some ''content_block_delta''
     \<and> Option.bind (c_delta orphan_json_delta) d_type = Some ''input_json_delta''
     \<and> map_get (co_toolCalls co_initState) (c_index orphan_json_delta) = None"
    by (simp add: orphan_json_delta_def co_initState_def map_get_def)
  from a b C9_orphan_tool_delta_is_noop
    [of orphan_fragment initState "[]" orphan_json_delta co_initState
        "''1700000000000''" 1700000000]
  show ?thesis by blast
qed

text \<open>
  Claim C10.  For a chunk whose \<open>choices\<close> field is missing or is an empty array, the
  translator returns \<open>null\<close>: no client event is emitted and the streaming state is
  returned as it was given.
\<close>

theorem C10_no_choices_is_noop:
  assumes "choices ch = None \<or> choices ch = Some []"
  shows "openaiToClaudeResponse now1 now2 (Some ch) st = (None, st)"
  using assms by (auto simp: openaiToClaudeResponse_def)

theorem C10_no_choices_is_noop_witness:
  "(choices usage_only_chunk = None \<or> choices usage_only_chunk = Some [])
   \<and> openaiToClaudeResponse ''1700000000000'' ''1700000000001'' (Some usage_only_chunk) initState
       = (None, initState)"
proof -
  have h: "choices usage_only_chunk = None \<or> choices usage_only_chunk = Some []"
    by (simp add: usage_only_chunk_def)
  from h C10_no_choices_is_noop [OF h] show ?thesis by simp
qed

section \<open>Properties of the Claude to OpenAI request translator\<close>

declare scan_responses.simps [simp del] fix_loop.simps [simp del]

lemma scan_responses_eq:
  "j \<le> length ms \<Longrightarrow>
   scan_responses ms j (R, p) =
     (if takeWhile is_response (drop j ms) = [] then (R, p)
      else (R \<union> {s. \<exists>r \<in> set (takeWhile is_response (drop j ms)). m_tool_call_id r = Some s},
            j + length (takeWhile is_response (drop j ms))))"
proof (induction ms j "(R, p)" arbitrary: R p rule: scan_responses.induct)
  case (1 ms j R p)
  show ?case
  proof (cases "j < length ms")
    case False
    then show ?thesis using "1.prems" by (simp add: scan_responses.simps)
  next
    case True
    then have d: "drop j ms = ms ! j # drop (Suc j) ms"
      by (simp add: Cons_nth_drop_Suc)
    show ?thesis
    proof (cases "is_response (ms ! j)")
      case False
      with True d show ?thesis by (simp add: scan_responses.simps)
    next
      case r: True
      then obtain s where s: "m_tool_call_id (ms ! j) = Some s"
        by (auto simp: is_response_def truthy_str_def split: option.splits)
      have ih: "scan_responses ms (j + 1) (insert s R, j + 1) =
        (if takeWhile is_response (drop (j + 1) ms) = [] then (insert s R, j + 1)
         else (insert s R \<union> {s. \<exists>r \<in> set (takeWhile is_response (drop (j + 1) ms)). m_tool_call_id r = Some s},
            j + 1 + length (takeWhile is_response (drop (j + 1) ms))))"
        using "1.hyps" [OF True r] True s by (simp add: the_default_def)
      have "scan_responses ms j (R, p) = scan_responses ms (j + 1) (insert s R, j + 1)"
        using True r s by (subst scan_responses.simps) (simp add: the_default_def)
      with ih d r s show ?thesis by auto
    qed
  qed
qed

lemma fix_amended_skip_tools:
  "\<forall>m \<in> set ts. \<not> carries_tool_calls m \<Longrightarrow> fix_amended (ts @ rest) = ts @ fix_amended rest"
  by (induction ts) auto

lemma is_response_not_carries: "is_response m \<Longrightarrow> \<not> carries_tool_calls m"
  by (auto simp: is_response_def carries_tool_calls_def)

lemma fix_loop_eq:
  "i \<le> length ms \<Longrightarrow> fix_loop i ms = take i ms @ fix_amended (drop i ms)"
proof (induction i ms rule: fix_loop.induct)
  case (1 i ms)
  show ?case
  proof (cases "i < length ms")
    case False
    then show ?thesis using "1.prems" by (simp add: fix_loop.simps)
  next
    case True
    then have d: "drop i ms = ms ! i # drop (Suc i) ms"
      by (simp add: Cons_nth_drop_Suc)
    show ?thesis
    proof (cases "carries_tool_calls (ms ! i)")
      case False
      then have "fix_loop i ms = fix_loop (i + 1) ms"
        using True by (subst fix_loop.simps) simp
      also have "\<dots> = take (i + 1) ms @ fix_amended (drop (i + 1) ms)"
        using "1.IH"(3) [OF True refl False] True by simp
      finally show ?thesis using d False True by (simp add: take_Suc_conv_app_nth)
    next
      case c: True
      define run where "run = takeWhile is_response (drop (Suc i) ms)"
      define answered where "answered = {s. \<exists>r \<in> set run. m_tool_call_id r = Some s}"
      define pos where "pos = Suc i + length run"
      define missing where "missing = filter (is_missing answered) (toolCallIds (ms ! i))"
      have sc: "scan_responses ms (i + 1) ({}, i + 1) = (answered, pos)"
        using True by (simp add: scan_responses_eq run_def answered_def pos_def)
      have pos_le: "pos \<le> length ms"
        unfolding pos_def run_def using True
        by (metis (no_types, lifting) Suc_leI add_Suc length_drop length_takeWhile_le
            le_add_diff_inverse add_le_cancel_left)
      have split: "drop (Suc i) ms = run @ dropWhile is_response (drop (Suc i) ms)"
        by (simp add: run_def)
      have take_pos: "take pos ms = take (Suc i) ms @ run"
      proof -
        have "take pos ms = take (Suc i) ms @ take (length run) (drop (Suc i) ms)"
          unfolding pos_def using take_add [of "Suc i" "length run" ms] by simp
        also have "take (length run) (drop (Suc i) ms) = run"
          by (metis split append_eq_conv_conj)
        finally show ?thesis .
      qed
      have drop_pos: "drop pos ms = dropWhile is_response (drop (Suc i) ms)"
      proof -
        have "drop pos ms = drop (length run) (drop (Suc i) ms)"
          unfolding pos_def using drop_drop [of "length run" "Suc i" ms] by (simp add: add.commute)
        also have "\<dots> = dropWhile is_response (drop (Suc i) ms)"
          by (metis split append_eq_conv_conj)
        finally show ?thesis .
      qed
      have run_tools: "\<forall>m \<in> set run. \<not> carries_tool_calls m"
        unfolding run_def by (auto dest!: set_takeWhileD is_response_not_carries)
      have spec: "fix_amended (drop i ms) =
          ms ! i # run @ map missing_response missing @ fix_amended (drop pos ms)"
        using c d drop_pos by (simp add: run_def answered_def missing_def Let_def)
      show ?thesis
      proof (cases "missing = []")
        case True
        have "fix_loop i ms = fix_loop (i + 1) ms"
          using \<open>i < length ms\<close> c sc True
          by (subst fix_loop.simps) (simp add: missing_def Let_def)
        also have "\<dots> = take (i + 1) ms @ fix_amended (drop (i + 1) ms)"
          using "1.IH"(2) [OF \<open>i < length ms\<close> refl c sc [symmetric] refl]
            True \<open>i < length ms\<close> by (simp add: missing_def)
        also have "fix_amended (drop (i + 1) ms) = run @ fix_amended (drop pos ms)"
          using split run_tools drop_pos fix_amended_skip_tools by (metis Suc_eq_plus1)
        finally show ?thesis
          using spec True \<open>i < length ms\<close> by (simp add: take_Suc_conv_app_nth)
      next
        case False
        let ?ms' = "splice_in pos (map missing_response missing) ms"
        let ?i' = "pos + length (map missing_response missing) - 1 + 1"
        have ml: "0 < length missing" using False by simp
        have i': "?i' = pos + length missing" using False by (cases missing) auto
        have "fix_loop i ms = fix_loop ?i' ?ms'"
          using \<open>i < length ms\<close> c sc False
          by (subst fix_loop.simps) (simp add: missing_def Let_def)
        also have "\<dots> = take ?i' ?ms' @ fix_amended (drop ?i' ?ms')"
          using "1.IH"(1) [OF \<open>i < length ms\<close> refl c sc [symmetric] refl _ refl]
            False pos_le ml by (simp add: missing_def splice_in_def)
        also have "take ?i' ?ms' = take pos ms @ map missing_response missing"
          using pos_le ml by (simp add: splice_in_def)
        also have "drop ?i' ?ms' = drop pos ms"
          using pos_le ml by (simp add: splice_in_def)
        finally show ?thesis
          using spec take_pos \<open>i < length ms\<close> by (simp add: take_Suc_conv_app_nth)
      qed
    qed
  qed
qed


lemma all_answered_skip:
  "\<forall>m \<in> set ts. \<not> carries_tool_calls m \<Longrightarrow> all_answered (ts @ rest) = all_answered rest"
  by (induction ts) auto

lemma takeWhile_tools_append:
  "\<forall>m \<in> set ts. m_role m = ''tool'' \<Longrightarrow>
   takeWhile (\<lambda>m. m_role m = ''tool'') (ts @ rest) = ts @ takeWhile (\<lambda>m. m_role m = ''tool'') rest"
  by (induction ts) auto

lemma all_answered_fix_amended: "all_answered (fix_amended ms)"
proof (induction ms rule: fix_amended.induct)
  case 1
  show ?case by simp
next
  case (2 msg rest)
  show ?case
  proof (cases "carries_tool_calls msg")
    case False
    with 2 show ?thesis by simp
  next
    case True
    define run where "run = takeWhile is_response rest"
    define answered where "answered = {s. \<exists>r \<in> set run. m_tool_call_id r = Some s}"
    define synth where
      "synth = map missing_response (filter (is_missing answered) (toolCallIds msg))"
    define tl where "tl = fix_amended (dropWhile is_response rest)"
    have eq: "fix_amended (msg # rest) = msg # (run @ synth) @ tl"
      using True by (simp add: run_def answered_def synth_def tl_def Let_def)
    have tools: "\<forall>m \<in> set (run @ synth). m_role m = ''tool''"
      by (auto simp: run_def synth_def missing_response_def is_response_def dest!: set_takeWhileD)
    then have nc: "\<forall>m \<in> set (run @ synth). \<not> carries_tool_calls m"
      by (auto simp: carries_tool_calls_def)
    have ih: "all_answered tl"
      using "2.IH"(1) [OF True refl refl] by (simp add: tl_def)
    have ans: "\<exists>r \<in> set (run @ synth). m_tool_call_id r = i" if "i \<in> set (toolCallIds msg)" for i
    proof (cases "is_missing answered i")
      case True
      then have "missing_response i \<in> set synth" using that by (simp add: synth_def)
      then show ?thesis by (force simp: missing_response_def)
    next
      case False
      then obtain s where "i = Some s" "s \<in> answered"
        by (auto simp: is_missing_def split: option.splits)
      then show ?thesis by (auto simp: answered_def)
    qed
    have "all_answered (msg # (run @ synth) @ tl)"
      using ih ans all_answered_skip [OF nc, of tl] takeWhile_tools_append [OF tools, of tl]
      by auto
    with eq show ?thesis by simp
  qed
qed

lemma all_answered_nth:
  "all_answered ms \<Longrightarrow> i < length ms \<Longrightarrow> carries_tool_calls (ms ! i) \<Longrightarrow>
   c \<in> set (toolCallIds (ms ! i)) \<Longrightarrow>
   \<exists>r \<in> set (takeWhile (\<lambda>m. m_role m = ''tool'') (drop (Suc i) ms)). m_tool_call_id r = c"
proof (induction ms arbitrary: i)
  case Nil
  then show ?case by simp
next
  case (Cons m ms)
  show ?case
  proof (cases i)
    case 0
    with Cons.prems show ?thesis by auto
  next
    case (Suc k)
    with Cons.prems Cons.IH [of k] show ?thesis by auto
  qed
qed

lemma fixMissingToolResponses_eq: "fixMissingToolResponses ms = fix_amended ms"
  by (simp add: fixMissingToolResponses_def fix_loop_eq)

text \<open>
  Claim C4 takes the run behind an assistant message as the run of messages of role
  \<open>tool\<close>, gives a placeholder only to a call id that no message of that run answers,
  and puts the placeholders at the end of that run.  The inner loop of
  \<^verbatim>\<open>fixMissingToolResponses\<close> stops at a tool message without a call id.  For an
  assistant message that calls \<open>t1\<close> and \<open>t2\<close>, followed by a tool result without an id
  and a tool result for \<open>t1\<close>, the code puts placeholders for both \<open>t1\<close> and \<open>t2\<close>
  in front of the two tool messages, although \<open>t1\<close> is answered in the run; the pass as
  the claim words it keeps the two tool messages and adds one placeholder, for \<open>t2\<close>,
  behind them.
\<close>

theorem C4_answered_call_gets_placeholder:
  "claudeToOpenAIRequest_messages idless_body =
     [\<lparr>m_role = ''assistant'', m_content = None,
        m_tool_calls = Some [\<lparr>call_id = Some ''t1'', call_name = Some ''ls'',
                               call_arguments = ''{}''\<rparr>,
                             \<lparr>call_id = Some ''t2'', call_name = Some ''pwd'',
                               call_arguments = ''{}''\<rparr>],
        m_tool_call_id = None\<rparr>,
      \<lparr>m_role = ''tool'', m_content = Some (OCString ''[No response received]''),
        m_tool_calls = None, m_tool_call_id = Some ''t1''\<rparr>,
      \<lparr>m_role = ''tool'', m_content = Some (OCString ''[No response received]''),
        m_tool_calls = None, m_tool_call_id = Some ''t2''\<rparr>,
      \<lparr>m_role = ''tool'', m_content = Some (OCString ''x''),
        m_tool_calls = None, m_tool_call_id = None\<rparr>,
      \<lparr>m_role = ''tool'', m_content = Some (OCString ''y''),
        m_tool_calls = None, m_tool_call_id = Some ''t1''\<rparr>]
   \<and> fix_claim (push_converted (the_default [] (b_messages idless_body))
                  (system_messages idless_body)) =
     [\<lparr>m_role = ''assistant'', m_content = None,
        m_tool_calls = Some [\<lparr>call_id = Some ''t1'', call_name = Some ''ls'',
                               call_arguments = ''{}''\<rparr>,
                             \<lparr>call_id = Some ''t2'', call_name = Some ''pwd'',
                               call_arguments = ''{}''\<rparr>],
        m_tool_call_id = None\<rparr>,
      \<lparr>m_role = ''tool'', m_content = Some (OCString ''x''),
        m_tool_calls = None, m_tool_call_id = None\<rparr>,
      \<lparr>m_role = ''tool'', m_content = Some (OCString ''y''),
        m_tool_calls = None, m_tool_call_id = Some ''t1''\<rparr>,
      \<lparr>m_role = ''tool'', m_content = Some (OCString ''[No response received]''),
        m_tool_calls = None, m_tool_call_id = Some ''t2''\<rparr>]"
proof -
  have conv: "push_converted (the_default [] (b_messages idless_body))
                (system_messages idless_body) =
     [\<lparr>m_role = ''assistant'', m_content = None,
        m_tool_calls = Some [\<lparr>call_id = Some ''t1'', call_name = Some ''ls'',
                               call_arguments = ''{}''\<rparr>,
                             \<lparr>call_id = Some ''t2'', call_name = Some ''pwd'',
                               call_arguments = ''{}''\<rparr>],
        m_tool_call_id = None\<rparr>,
      \<lparr>m_role = ''tool'', m_content = Some (OCString ''x''),
        m_tool_calls = None, m_tool_call_id = None\<rparr>,
      \<lparr>m_role = ''tool'', m_content = Some (OCString ''y''),
        m_tool_calls = None, m_tool_call_id = Some ''t1''\<rparr>]"
    by (simp add: idless_body_def system_messages_def the_default_def convertClaudeMessage_def
          tool_result_content_def parts_content_def Let_def)
  show ?thesis
    unfolding claudeToOpenAIRequest_messages_def fixMissingToolResponses_eq conv
    by (simp add: carries_tool_calls_def is_response_def truthy_str_def toolCallIds_def
          the_default_def is_missing_def missing_response_def Let_def)
qed

text \<open>
  Claim C4, amended.  After the translation of a Claude request, for every assistant
  message of the output that carries tool calls, every call id has a tool response in the
  run of tool messages that immediately follows the assistant message.  The pass that
  achieves this keeps, behind each such assistant message, the run of tool messages that
  carry a call id, then inserts, at the end of that run, one tool message with the
  content \<open>[No response received]\<close> for every call id that run does not answer.
\<close>

theorem C4_every_tool_call_answered:
  "claudeToOpenAIRequest_messages body =
     fix_amended (push_converted (the_default [] (b_messages body)) (system_messages body))
   \<and> (\<forall>i < length (claudeToOpenAIRequest_messages body).
        carries_tool_calls (claudeToOpenAIRequest_messages body ! i) \<longrightarrow>
        (\<forall>c \<in> set (toolCallIds (claudeToOpenAIRequest_messages body ! i)).
           \<exists>r \<in> set (takeWhile (\<lambda>m. m_role m = ''tool'')
                        (drop (Suc i) (claudeToOpenAIRequest_messages body))).
             m_tool_call_id r = c))"
proof -
  have eq: "claudeToOpenAIRequest_messages body =
     fix_amended (push_converted (the_default [] (b_messages body)) (system_messages body))"
    by (simp add: claudeToOpenAIRequest_messages_def fixMissingToolResponses_def fix_loop_eq)
  then have "all_answered (claudeToOpenAIRequest_messages body)"
    by (simp add: all_answered_fix_amended)
  with eq show ?thesis
    using all_answered_nth by blast
qed

theorem C4_every_tool_call_answered_witness:
  "claudeToOpenAIRequest_messages example_body =
     [\<lparr>m_role = ''system'', m_content = Some (OCString ''be brief''),
        m_tool_calls = None, m_tool_call_id = None\<rparr>,
      \<lparr>m_role = ''user'', m_content = Some (OCString ''hi''),
        m_tool_calls = None, m_tool_call_id = None\<rparr>,
      \<lparr>m_role = ''assistant'', m_content = None,
        m_tool_calls = Some [\<lparr>call_id = Some ''t1'', call_name = Some ''ls'',
                               call_arguments = ''{}''\<rparr>,
                             \<lparr>call_id = Some ''t2'', call_name = Some ''pwd'',
                               call_arguments = ''{}''\<rparr>],
        m_tool_call_id = None\<rparr>,
      \<lparr>m_role = ''tool'', m_content = Some (OCString ''a.txt''),
        m_tool_calls = None, m_tool_call_id = Some ''t1''\<rparr>,
      \<lparr>m_role = ''tool'', m_content = Some (OCString ''[No response received]''),
        m_tool_calls = None, m_tool_call_id = Some ''t2''\<rparr>,
      \<lparr>m_role = ''user'', m_content = Some (OCString ''thanks''),
        m_tool_calls = None, m_tool_call_id = None\<rparr>]
   \<and> (\<exists>r \<in> set (takeWhile (\<lambda>m. m_role m = ''tool'')
                    (drop 3 (claudeToOpenAIRequest_messages example_body))).
         m_tool_call_id r = Some ''t2'')"
proof -
  let ?out = "claudeToOpenAIRequest_messages example_body"
  have conv: "push_converted (the_default [] (b_messages example_body))
                (system_messages example_body) =
     [\<lparr>m_role = ''system'', m_content = Some (OCString ''be brief''),
        m_tool_calls = None, m_tool_call_id = None\<rparr>,
      \<lparr>m_role = ''user'', m_content = Some (OCString ''hi''),
        m_tool_calls = None, m_tool_call_id = None\<rparr>,
      \<lparr>m_role = ''assistant'', m_content = None,
        m_tool_calls = Some [\<lparr>call_id = Some ''t1'', call_name = Some ''ls'',
                               call_arguments = ''{}''\<rparr>,
                             \<lparr>call_id = Some ''t2'', call_name = Some ''pwd'',
                               call_arguments = ''{}''\<rparr>],
        m_tool_call_id = None\<rparr>,
      \<lparr>m_role = ''tool'', m_content = Some (OCString ''a.txt''),
        m_tool_calls = None, m_tool_call_id = Some ''t1''\<rparr>,
      \<lparr>m_role = ''user'', m_content = Some (OCString ''thanks''),
        m_tool_calls = None, m_tool_call_id = None\<rparr>]"
    by (simp add: example_body_def system_messages_def the_default_def convertClaudeMessage_def
          tool_result_content_def parts_content_def Let_def)
  have out: "?out =
     [\<lparr>m_role = ''system'', m_content = Some (OCString ''be brief''),
        m_tool_calls = None, m_tool_call_id = None\<rparr>,
      \<lparr>m_role = ''user'', m_content = Some (OCString ''hi''),
        m_tool_calls = None, m_tool_call_id = None\<rparr>,
      \<lparr>m_role = ''assistant'', m_content = None,
        m_tool_calls = Some [\<lparr>call_id = Some ''t1'', call_name = Some ''ls'',
                               call_arguments = ''{}''\<rparr>,
                             \<lparr>call_id = Some ''t2'', call_name = Some ''pwd'',
                               call_arguments = ''{}''\<rparr>],
        m_tool_call_id = None\<rparr>,
      \<lparr>m_role = ''tool'', m_content = Some (OCString ''a.txt''),
        m_tool_calls = None, m_tool_call_id = Some ''t1''\<rparr>,
      \<lparr>m_role = ''tool'', m_content = Some (OCString ''[No response received]''),
        m_tool_calls = None, m_tool_call_id = Some ''t2''\<rparr>,
      \<lparr>m_role = ''user'', m_content = Some (OCString ''thanks''),
        m_tool_calls = None, m_tool_call_id = None\<rparr>]"
    unfolding conjunct1 [OF C4_every_tool_call_answered [of example_body]] conv
    by (simp add: carries_tool_calls_def is_response_def truthy_str_def toolCallIds_def
          the_default_def is_missing_def missing_response_def Let_def)
  have i: "2 < length ?out" by (simp add: out)
  have c: "carries_tool_calls (?out ! 2)" by (simp add: out carries_tool_calls_def)
  have m: "Some ''t2'' \<in> set (toolCallIds (?out ! 2))"
    by (simp add: out toolCallIds_def the_default_def)
  have "\<exists>r \<in> set (takeWhile (\<lambda>m. m_role m = ''tool'') (drop (Suc 2) ?out)).
          m_tool_call_id r = Some ''t2''"
    using C4_every_tool_call_answered [of example_body] i c m by blast
  then show ?thesis using out by (simp add: numeral_3_eq_3)
qed

section \<open>Properties of the SSE stream orchestrator\<close>

lemma split_nl_nonempty [simp]: "split_nl t \<noteq> []"
  by (induction t) (auto split: list.splits)

lemma split_nl_append:
  "split_nl (x @ y) = butlast (split_nl x) @ split_nl (last (split_nl x) @ y)"
proof (induction x)
  case Nil
  show ?case by simp
next
  case (Cons c x)
  show ?case
  proof (cases "c = 10")
    case True
    with Cons show ?thesis by simp
  next
    case False
    obtain l ls where s: "split_nl x = l # ls"
      by (cases "split_nl x") auto
    show ?thesis
    proof (cases ls)
      case Nil
      with s Cons False show ?thesis by simp
    next
      case (Cons l' ls')
      obtain m ms where t: "split_nl (last (split_nl x) @ y) = m # ms"
        by (cases "split_nl (last (split_nl x) @ y)") auto
      with s Cons Cons.IH False local.Cons show ?thesis by simp
    qed
  qed
qed

lemma split_nl_no_nl: "10 \<notin> set t \<Longrightarrow> split_nl t = [t]"
  by (induction t) auto

lemma last_split_nl_no_nl: "10 \<notin> set (last (split_nl t))"
proof (induction t)
  case Nil
  show ?case by simp
next
  case (Cons c t)
  obtain l ls where s: "split_nl t = l # ls" by (cases "split_nl t") auto
  with Cons show ?case by (cases ls) auto
qed

lemma process_line_frame:
  "process_line e mode (s\<lparr>s_buffer := b\<rparr>, out) line =
     (case process_line e mode (s, out) line of (s', out') \<Rightarrow> (s'\<lparr>s_buffer := b\<rparr>, out'))"
  by (simp add: process_line_def Let_def split: option.splits prod.splits)

lemma process_lines_frame:
  "foldl (process_line e mode) (s\<lparr>s_buffer := b\<rparr>, out) lines =
     (case foldl (process_line e mode) (s, out) lines of (s', out') \<Rightarrow> (s'\<lparr>s_buffer := b\<rparr>, out'))"
proof (induction lines arbitrary: s out)
  case Nil
  show ?case by simp
next
  case (Cons l lines)
  obtain s1 out1 where p: "process_line e mode (s, out) l = (s1, out1)"
    by (cases "process_line e mode (s, out) l")
  show ?case using Cons [of s1 out1] p by (simp add: process_line_frame)
qed

lemma process_line_out:
  "process_line e mode (s, out) line =
     (case process_line e mode (s, []) line of (s', out') \<Rightarrow> (s', out @ out'))"
  by (simp add: process_line_def Let_def split: option.splits prod.splits)

lemma process_lines_out:
  "foldl (process_line e mode) (s, out) lines =
     (case foldl (process_line e mode) (s, []) lines of (s', out') \<Rightarrow> (s', out @ out'))"
proof (induction lines arbitrary: s out)
  case Nil
  show ?case by simp
next
  case (Cons l lines)
  obtain s1 out1 where p: "process_line e mode (s, []) l = (s1, out1)"
    by (cases "process_line e mode (s, []) l")
  have q: "process_line e mode (s, out) l = (s1, out @ out1)"
    using process_line_out [of e mode s out l] p by simp
  show ?case
    using Cons [of s1 "out @ out1"] Cons [of s1 out1] p q
    by (simp split: prod.splits)
qed

lemma process_line_errored:
  "process_line e mode (s, out) line = (s', out') \<Longrightarrow> s_errored s \<Longrightarrow> s_errored s'"
  by (simp add: process_line_def Let_def)

lemma process_lines_errored:
  "foldl (process_line e mode) (s, out) lines = (s', out') \<Longrightarrow> s_errored s \<Longrightarrow> s_errored s'"
proof (induction lines arbitrary: s out)
  case Nil
  then show ?case by simp
next
  case (Cons l lines)
  obtain s1 out1 where p: "process_line e mode (s, out) l = (s1, out1)"
    by (cases "process_line e mode (s, out) l")
  from process_line_errored [OF p Cons.prems(2)] Cons.IH [of s1 out1] Cons.prems(1) p
  show ?case by simp
qed

lemma process_lines_buffer:
  "foldl (process_line e mode) (s, out) lines = (s', out') \<Longrightarrow> s_buffer s' = s_buffer s"
proof (induction lines arbitrary: s out)
  case Nil
  then show ?case by simp
next
  case (Cons l lines)
  obtain s1 out1 where p: "process_line e mode (s, out) l = (s1, out1)"
    by (cases "process_line e mode (s, out) l")
  have "s_buffer s1 = s_buffer s"
    using p by (auto simp: process_line_def Let_def split: option.splits prod.splits if_splits)
  with Cons.IH [of s1 out1] Cons.prems p show ?case by simp
qed

text \<open>Text given in two pieces is consumed as the text given at once.\<close>

lemma consume_append:
  "consume e mode s (t1 @ t2) =
     (case consume e mode s t1 of (s1, out1) \<Rightarrow>
        (case consume e mode s1 t2 of (s2, out2) \<Rightarrow> (s2, out1 @ out2)))"
proof -
  let ?x = "s_buffer s @ t1"
  obtain s1 out1 where f1:
    "foldl (process_line e mode) (s, []) (butlast (split_nl ?x)) = (s1, out1)"
    by (cases "foldl (process_line e mode) (s, []) (butlast (split_nl ?x))")
  let ?s1 = "s1\<lparr>s_buffer := last (split_nl ?x)\<rparr>"
  let ?l2 = "butlast (split_nl (last (split_nl ?x) @ t2))"
  obtain s2 out2 where f2: "foldl (process_line e mode) (s1, []) ?l2 = (s2, out2)"
    by (cases "foldl (process_line e mode) (s1, []) ?l2")
  have sp: "split_nl (s_buffer s @ t1 @ t2)
      = butlast (split_nl ?x) @ split_nl (last (split_nl ?x) @ t2)"
    using split_nl_append [of ?x t2] by simp
  have bl: "butlast (split_nl (s_buffer s @ t1 @ t2)) = butlast (split_nl ?x) @ ?l2"
    by (simp add: sp butlast_append)
  have la: "last (split_nl (s_buffer s @ t1 @ t2)) = last (split_nl (last (split_nl ?x) @ t2))"
    by (simp add: sp)
  have all: "foldl (process_line e mode) (s, []) (butlast (split_nl ?x) @ ?l2) = (s2, out1 @ out2)"
    using f1 f2 process_lines_out [of e mode s1 out1 ?l2] by simp
  have w1: "consume e mode s t1 = (?s1, out1)"
    by (simp add: consume_def Let_def f1 process_lines_frame)
  have w2: "consume e mode ?s1 t2 = (s2\<lparr>s_buffer := last (split_nl (last (split_nl ?x) @ t2))\<rparr>, out2)"
    using f2 by (simp add: consume_def Let_def process_lines_frame)
  have w: "consume e mode s (t1 @ t2)
      = (s2\<lparr>s_buffer := last (split_nl (s_buffer s @ t1 @ t2))\<rparr>, out1 @ out2)"
    using all by (simp add: consume_def Let_def process_lines_frame bl del: foldl_append)
  show ?thesis by (simp add: w w1 w2 la)
qed

lemma consume_nil: "10 \<notin> set (s_buffer s) \<Longrightarrow> consume e mode s [] = (s, [])"
  by (simp add: consume_def split_nl_no_nl)

lemma consume_buffer: "consume e mode s t = (s', out) \<Longrightarrow> 10 \<notin> set (s_buffer s')"
proof -
  assume c: "consume e mode s t = (s', out)"
  let ?lines = "split_nl (s_buffer s @ t)"
  from c have "foldl (process_line e mode) (s\<lparr>s_buffer := last ?lines\<rparr>, []) (butlast ?lines) = (s', out)"
    by (simp add: consume_def Let_def)
  from process_lines_buffer [OF this] show ?thesis by (simp add: last_split_nl_no_nl)
qed

lemma consume_errored: "consume e mode s t = (s', out) \<Longrightarrow> s_errored s \<Longrightarrow> s_errored s'"
  unfolding consume_def Let_def using process_lines_errored [of e mode _ "[]"] by fastforce

lemma transform_consume:
  "transform e mode ds s chunk =
     (snd (decode (decode_step e) ds chunk),
      consume e mode s (fst (decode (decode_step e) ds chunk)))"
  by (simp add: transform_def split: prod.splits)

lemma transform_calls_errored:
  "transform_calls e mode s calls = (s', out) \<Longrightarrow> s_errored s \<Longrightarrow> s_errored s'"
  by (cases calls) auto

text \<open>
  When no call has thrown, the calls of \<^verbatim>\<open>transform\<close> do what one call does on all the
  text.
\<close>

lemma transform_calls_consume:
  "transform_calls e mode s calls = (s', out) \<Longrightarrow> \<not> s_errored s' \<Longrightarrow> 10 \<notin> set (s_buffer s)
   \<Longrightarrow> consume e mode s (calls_text e calls) = (s', out)"
proof (induction calls arbitrary: s out)
  case Nil
  then show ?case by (simp add: calls_text_def consume_nil)
next
  case (Cons c calls)
  obtain ds chunk where c: "c = (ds, chunk)" by (cases c)
  have ne: "\<not> s_errored s"
    using transform_calls_errored [OF Cons.prems(1)] Cons.prems(2) by blast
  let ?t = "fst (decode (decode_step e) ds chunk)"
  obtain s1 out1 where c1: "consume e mode s ?t = (s1, out1)"
    by (cases "consume e mode s ?t")
  obtain s2 out2 where r: "transform_calls e mode s1 calls = (s2, out2)"
    by (cases "transform_calls e mode s1 calls")
  from Cons.prems(1) ne c c1 r have eq: "s' = s2" "out = out1 @ out2"
    by (simp_all add: transform_consume)
  have r': "transform_calls e mode s1 calls = (s', out2)" using r eq by simp
  have "consume e mode s1 (calls_text e calls) = (s2, out2)"
    using Cons.IH [OF r' Cons.prems(2) consume_buffer [OF c1]] eq by simp
  then show ?case
    using c c1 eq by (simp add: calls_text_def consume_append)
qed

lemma emit_no_done:
  "no_done_events e \<Longrightarrow> translateResponse e chunk st = Some (translated, st') \<Longrightarrow>
   count_list (emit_translated (claude_client e) translated) (Record DoneRecord) = 0"
proof -
  assume n: "no_done_events e" and t: "translateResponse e chunk st = Some (translated, st')"
  have "\<forall>item \<in> set (the_default [] translated). formatSSE (claude_client e) item \<noteq> DoneRecord"
    using n t unfolding no_done_events_def by blast
  then have "Record DoneRecord \<notin> set (emit_translated (claude_client e) translated)"
    by (auto simp: emit_translated_def the_default_def split: option.splits)
  then show ?thesis by (simp add: count_list_0_iff)
qed

lemma process_line_count:
  "no_done_events e \<Longrightarrow> process_line e TRANSLATE (s, []) line = (s', out') \<Longrightarrow> \<not> s_errored s'
   \<Longrightarrow> count_list out' (Record DoneRecord)
         = length (filter (\<lambda>parsed. truthy (jget parsed ''done'')) (parsed_of_line e line))"
  by (auto simp: process_line_def parsed_of_line_def Let_def emit_no_done
      split: option.splits prod.splits if_splits)

lemma process_lines_count:
  "no_done_events e \<Longrightarrow> foldl (process_line e TRANSLATE) (s, []) lines = (s', out')
   \<Longrightarrow> \<not> s_errored s'
   \<Longrightarrow> count_list out' (Record DoneRecord)
         = length (filter (\<lambda>parsed. truthy (jget parsed ''done''))
                     (concat (map (parsed_of_line e) lines)))"
proof (induction lines arbitrary: s s' out')
  case Nil
  then show ?case by simp
next
  case (Cons l lines)
  obtain s1 out1 where p: "process_line e TRANSLATE (s, []) l = (s1, out1)"
    by (cases "process_line e TRANSLATE (s, []) l")
  obtain s2 out2 where f: "foldl (process_line e TRANSLATE) (s1, []) lines = (s2, out2)"
    by (cases "foldl (process_line e TRANSLATE) (s1, []) lines")
  have "foldl (process_line e TRANSLATE) (s, []) (l # lines) = (s2, out1 @ out2)"
    using p f process_lines_out [of e TRANSLATE s1 out1 lines] by simp
  with Cons.prems have o: "out' = out1 @ out2" "s' = s2" by simp_all
  have n1: "\<not> s_errored s1"
    using process_lines_errored [OF f] Cons.prems(3) o by blast
  show ?case
    using process_line_count [OF Cons.prems(1) p n1] Cons.IH [OF Cons.prems(1) f] Cons.prems(3) o
    by simp
qed

lemma finish_translate_out:
  "finish e TRANSLATE s remaining = (s', out, False) \<Longrightarrow>
   \<exists>pre. out = pre @ [Record DoneRecord]
        \<and> (no_done_events e \<longrightarrow> count_list pre (Record DoneRecord) = 0)"
  by (auto simp: finish_def Let_def emit_no_done split: option.splits prod.splits if_splits)


lemma example_env_fields:
  "decode_end example_env = (\<lambda>ds. [])"
  "decode_init example_env = ()"
  "JSON_parse example_env =
     (\<lambda>t. if t = js ''{\"a\":1}'' then Some (JObj [(''a'', JNum 1)]) else None)"
  "translateResponse example_env =
     (\<lambda>chunk st. Some (case chunk of None \<Rightarrow> None
                                      | Some parsed \<Rightarrow> Some [JObj [(''echo'', parsed)]], st))"
  "claude_client example_env = False"
  by (simp_all add: example_env_def)

lemma decode_ascii: "decode (decode_step example_env) ds (ascii s) = (js s, ds)"
proof (induction s)
  case Nil
  show ?case by (simp add: ascii_def js_def)
next
  case (Cons c s)
  have "unat (of_nat (of_char c) :: 8 word) = of_char c"
    by (simp add: unat_of_nat)
  with Cons show ?case by (simp add: ascii_def js_def example_env_def)
qed

lemma no_done_example: "no_done_events example_env"
  by (auto simp: no_done_events_def example_env_fields the_default_def formatSSE_def
        drop_null_perf_metrics_def split: option.splits)

lemmas stream_eval = stream_calls_def transform_def consume_def decode_ascii example_stream_def
  createSSEStream_def flush_def finish_def process_line_def parseSSELine_def trim_def
  is_space_def js_def emit_translated_def example_env_fields formatSSE_def
  drop_null_perf_metrics_def extractUsage_def Let_def

text \<open>
  Claim C2, as stated, fails: when the upstream itself sends the line \<open>data: [DONE]\<close>,
  the transform forwards a \<open>data: [DONE]\<close> record and the flush adds another one, so the
  output carries two.
\<close>

theorem C2_upstream_done_sent_twice:
  "stream_calls example_env TRANSLATE example_stream [((), ascii ''data: [DONE]\<newline>'')] ()
     = (example_stream, [Record DoneRecord, Record DoneRecord], Completed)
   \<and> count_list [Record DoneRecord, Record DoneRecord] (Record DoneRecord) \<noteq> 1"
  by (simp add: stream_eval)

text \<open>
  Claim C2, amended.  In translate mode, for every upstream byte stream, however it is
  cut into chunks and whatever state the shared decoder is in at each call: when the
  calls of the stream complete, that is, when no call of the translator throws, the
  output is not empty and its last record is \<open>data: [DONE]\<close>, added once by the flush
  behind all translated content and terminal events.  Every complete upstream line whose
  parsed value has a truthy \<open>done\<close>, which is a line that carries the sentinel \<open>[DONE]\<close>
  or a line whose JSON payload is an object with a truthy \<open>done\<close> property, is answered
  with one more \<open>data: [DONE]\<close> record where it is read: for a translator whose events
  are never framed as \<open>data: [DONE]\<close>, the number of such records in the output is one
  plus the number of these lines, so it is exactly one when the upstream sends none.
\<close>

theorem C2_done_last_and_counted:
  assumes "stream_calls e TRANSLATE (createSSEStream st) calls ds_end = (s', out, Completed)"
  shows "out \<noteq> [] \<and> last out = Record DoneRecord
     \<and> (no_done_events e \<longrightarrow>
          count_list out (Record DoneRecord) = 1 + length (done_lines e (calls_text e calls)))"
proof -
  let ?s = "createSSEStream st"
  obtain s1 out1 where tc: "transform_calls e TRANSLATE ?s calls = (s1, out1)"
    by (cases "transform_calls e TRANSLATE ?s calls")
  from assms tc have ne: "\<not> s_errored s1"
    by (auto simp: stream_calls_def split: if_splits prod.splits)
  obtain s2 out2 caught where fi: "finish e TRANSLATE s1 (decode_end e ds_end) = (s2, out2, caught)"
    by (cases "finish e TRANSLATE s1 (decode_end e ds_end)")
  from assms tc ne fi have o: "out = out1 @ out2" and c: "\<not> caught"
    by (auto simp: stream_calls_def flush_def split: if_splits)
  from finish_translate_out [of e s1 "decode_end e ds_end" s2 out2] fi c
  obtain pre where pre: "out2 = pre @ [Record DoneRecord]"
    "no_done_events e \<longrightarrow> count_list pre (Record DoneRecord) = 0"
    by auto
  have nb: "10 \<notin> set (s_buffer ?s)" by (simp add: createSSEStream_def)
  have co: "consume e TRANSLATE ?s (calls_text e calls) = (s1, out1)"
    using transform_calls_consume [OF tc ne nb] .
  let ?t = "calls_text e calls"
  have f: "foldl (process_line e TRANSLATE) (?s\<lparr>s_buffer := last (split_nl ?t)\<rparr>, [])
             (butlast (split_nl ?t)) = (s1, out1)"
    using co by (simp add: consume_def Let_def createSSEStream_def)
  have cnt: "count_list out1 (Record DoneRecord) = length (done_lines e ?t)" if "no_done_events e"
    using process_lines_count [OF that f ne] by (simp add: done_lines_def)
  show ?thesis using o pre cnt by simp
qed

theorem C2_done_last_and_counted_witness:
  "stream_calls example_env TRANSLATE example_stream
     [((), ascii ''data: {\"a\"''), ((), ascii '':1}\<newline>\<newline>data: [DO''),
      ((), ascii ''NE]\<newline>\<newline>'')] ()
     = (example_stream,
        [Record (DataRecord (JObj [(''echo'', JObj [(''a'', JNum 1)])])),
         Record DoneRecord, Record DoneRecord],
        Completed)
   \<and> no_done_events example_env
   \<and> length (done_lines example_env
               (calls_text example_env
                  [((), ascii ''data: {\"a\"''), ((), ascii '':1}\<newline>\<newline>data: [DO''),
                   ((), ascii ''NE]\<newline>\<newline>'')])) = 1"
proof -
  let ?calls = "[((), ascii ''data: {\"a\"''), ((), ascii '':1}\<newline>\<newline>data: [DO''),
                 ((), ascii ''NE]\<newline>\<newline>'')]"
  have r: "stream_calls example_env TRANSLATE (createSSEStream \<lparr>ts_usage = None, ts_inner = ()\<rparr>)
             ?calls ()
     = (example_stream,
        [Record (DataRecord (JObj [(''echo'', JObj [(''a'', JNum 1)])])),
         Record DoneRecord, Record DoneRecord],
        Completed)"
    by (simp add: stream_eval)
  from C2_done_last_and_counted [OF r] no_done_example
  have "1 + length (done_lines example_env (calls_text example_env ?calls)) = 2"
    by simp
  with r no_done_example show ?thesis by (simp add: example_stream_def)
qed

lemma decode_append:
  "decode step ds (a @ b) =
     (case decode step ds a of (t1, d1) \<Rightarrow>
        (case decode step d1 b of (t2, d2) \<Rightarrow> (t1 @ t2, d2)))"
  by (induction a arbitrary: ds) (auto split: prod.splits)

lemma utf8_env_fields:
  "decode_step utf8_env = utf8_step"
  "decode_end utf8_env = (\<lambda>pending. case pending of None \<Rightarrow> [] | Some lead \<Rightarrow> [65533])"
  "decode_init utf8_env = None"
  "JSON_parse utf8_env =
     (\<lambda>t. if t = js ''{\"a\":1}'' then Some (JObj [(''a'', JNum 1)]) else None)"
  "translateResponse utf8_env =
     (\<lambda>chunk st. Some (case chunk of None \<Rightarrow> None
                                      | Some parsed \<Rightarrow> Some [JObj [(''echo'', parsed)]], st))"
  "claude_client utf8_env = False"
  by (simp_all add: utf8_env_def)

text \<open>The decoder on ASCII bytes, with nothing pending and with a lead byte pending.\<close>

lemma decode_utf8_ascii:
  "list_all (\<lambda>c. of_char c < (128 :: nat)) s \<Longrightarrow> decode utf8_step None (ascii s) = (js s, None)"
proof (induction s)
  case Nil
  show ?case by (simp add: ascii_def js_def)
next
  case (Cons c s)
  have u: "unat (of_nat (of_char c) :: 8 word) = of_char c"
    by (simp add: unat_of_nat)
  from Cons show ?case by (simp add: ascii_def js_def utf8_step_def utf8_start_def u)
qed

lemma decode_utf8_ascii_pending:
  "list_all (\<lambda>c. of_char c < (128 :: nat)) (c # s)
   \<Longrightarrow> decode utf8_step (Some lead) (ascii (c # s)) = (65533 # js (c # s), None)"
proof -
  assume a: "list_all (\<lambda>c. of_char c < (128 :: nat)) (c # s)"
  have u: "unat (of_nat (of_char c) :: 8 word) = of_char c"
    by (simp add: unat_of_nat)
  have "decode utf8_step None (ascii s) = (js s, None)"
    using a by (simp add: decode_utf8_ascii)
  then have "decode utf8_step None (map (\<lambda>c. of_nat (of_char c)) s) = (map of_char s, None)"
    by (simp add: ascii_def js_def)
  with a show ?thesis by (simp add: ascii_def js_def utf8_step_def utf8_start_def u)
qed

lemma decode_nbsp_line:
  "decode utf8_step None nbsp_line = (js ''data: {\"a\":1}'' @ [160, 10], None)"
  by (simp add: nbsp_line_def decode_append decode_utf8_ascii utf8_step_def utf8_start_def)

lemma decode_nbsp_line_head:
  "decode utf8_step None nbsp_line_head = (js ''data: {\"a\":1}'', Some 194)"
  by (simp add: nbsp_line_head_def decode_append decode_utf8_ascii utf8_step_def utf8_start_def)

lemma decode_nbsp_line_tail:
  "decode utf8_step None nbsp_line_tail = ([65533, 10], None)"
  by (simp add: nbsp_line_tail_def utf8_step_def utf8_start_def)

lemma decode_nbsp_line_tail_pending:
  "decode utf8_step (Some 194) nbsp_line_tail = ([160, 10], None)"
  by (simp add: nbsp_line_tail_def utf8_step_def utf8_start_def)

lemma decode_plain_line:
  "decode utf8_step None plain_line = (js ''data: {\"a\":1}\<newline>'', None)"
  "decode utf8_step (Some 194) plain_line = (65533 # js ''data: {\"a\":1}\<newline>'', None)"
  unfolding plain_line_def by (simp_all add: decode_utf8_ascii decode_utf8_ascii_pending)

lemmas shared_eval = sent_by_def transform_def consume_def utf8_env_fields example_stream_def
  createSSEStream_def flush_def finish_def process_line_def parseSSELine_def trim_def
  is_space_def js_def emit_translated_def formatSSE_def drop_null_perf_metrics_def
  extractUsage_def decode_nbsp_line decode_nbsp_line_head decode_nbsp_line_tail
  decode_nbsp_line_tail_pending decode_plain_line Let_def

text \<open>
  A stream that has the decoder to itself.  \<open>alone_sent\<close> is what it sends on when all
  its bytes come as one chunk; it is also what it sends on however the bytes are cut.
\<close>

lemma process_line_errored_out:
  "s_errored s \<Longrightarrow> process_line e mode (s, out) line = (s, out)"
  by (simp add: process_line_def Let_def)

lemma process_lines_errored_out:
  "s_errored s \<Longrightarrow> foldl (process_line e mode) (s, out) lines = (s, out)"
  by (induction lines) (simp_all add: process_line_errored_out)

lemma consume_errored_out:
  "s_errored s \<Longrightarrow> snd (consume e mode s t) = [] \<and> s_errored (fst (consume e mode s t))"
  by (simp add: consume_def Let_def process_lines_errored_out)

lemma sent_by_cons:
  "sent_by i (ds, ss, map (Pair i) out @ outs) = out @ sent_by i (ds', ss', outs)"
  by (simp add: sent_by_def comp_def)

lemma alone_chunks:
  "10 \<notin> set (s_buffer s) \<Longrightarrow>
   sent_by 0 (run_events e mode ds [s] (map (Chunk 0) chunks @ [End 0])) =
     (if s_errored s then []
      else (case decode (decode_step e) ds (concat chunks) of (t, ds1) \<Rightarrow>
              (case consume e mode s t of (s1, out) \<Rightarrow>
                 out @ (if s_errored s1 then []
                        else fst (snd (snd (flush e mode ds1 s1)))))))"
proof (induction chunks arbitrary: ds s)
  case Nil
  show ?case
    using Nil by (simp add: consume_nil sent_by_def comp_def split: prod.splits)
next
  case (Cons c chunks)
  show ?case
  proof (cases "s_errored s")
    case True
    then show ?thesis using Cons.IH [OF Cons.prems, of ds] by simp
  next
    case False
    obtain t1 d1 where da: "decode (decode_step e) ds c = (t1, d1)"
      by (cases "decode (decode_step e) ds c")
    obtain t2 d2 where db: "decode (decode_step e) d1 (concat chunks) = (t2, d2)"
      by (cases "decode (decode_step e) d1 (concat chunks)")
    obtain s1 out1 where c1: "consume e mode s t1 = (s1, out1)"
      by (cases "consume e mode s t1")
    obtain s2 out2 where c2: "consume e mode s1 t2 = (s2, out2)"
      by (cases "consume e mode s1 t2")
    have nb: "10 \<notin> set (s_buffer s1)" using consume_buffer [OF c1] .
    have tr: "transform e mode ds s c = (d1, s1, out1)"
      by (simp add: transform_def da c1)
    obtain r where r: "run_events e mode d1 [s1] (map (Chunk 0) chunks @ [End 0]) = r"
      by simp
    obtain rd rs ro where r3: "r = (rd, rs, ro)" by (cases r)
    have lhs: "sent_by 0 (run_events e mode ds [s] (map (Chunk 0) (c # chunks) @ [End 0]))
        = out1 @ sent_by 0 r"
      using False tr r r3 by (simp add: sent_by_def comp_def)
    have whole: "consume e mode s (t1 @ t2) = (s2, out1 @ out2)"
      by (simp add: consume_append c1 c2)
    have ih: "sent_by 0 r =
        (if s_errored s1 then []
         else out2 @ (if s_errored s2 then [] else fst (snd (snd (flush e mode d2 s2)))))"
      using Cons.IH [OF nb, of d1] r db c2 by simp
    show ?thesis
    proof (cases "s_errored s1")
      case True
      with consume_errored_out [OF True, of e mode t2] c2
      have "out2 = []" "s_errored s2" by simp_all
      with True ih lhs False whole da db show ?thesis
        by (simp add: decode_append)
    next
      case False
      with ih lhs \<open>\<not> s_errored s\<close> whole da db show ?thesis
        by (simp add: decode_append)
    qed
  qed
qed

text \<open>
  In isolation the claim holds: a stream that has the decoder to itself sends on the same
  records however its bytes are cut into chunks, for every decoder, parser, translator
  and mode.
\<close>

lemma alone_chunk_boundary_insensitive:
  "sent_by 0 (run_events e mode ds [createSSEStream st] (map (Chunk 0) chunks @ [End 0]))
     = sent_by 0 (run_events e mode ds [createSSEStream st] [Chunk 0 (concat chunks), End 0])"
proof -
  have nb: "10 \<notin> set (s_buffer (createSSEStream st))"
    by (simp add: createSSEStream_def)
  show ?thesis
    using alone_chunks [OF nb, of e mode ds chunks]
      alone_chunks [OF nb, of e mode ds "[concat chunks]"]
    by simp
qed

text \<open>
  Claim C7 fails on the code when two streams are open.  The chunk of another stream,
  arriving between the two fragments of a stream that were cut inside a character, is
  decoded by the same decoder: the pending lead byte comes out as U+FFFD at the front of
  the other stream's text, and the rest of the character comes out as U+FFFD in its own
  stream.  With the cut the stream loses its parsed value, and so does the other stream;
  without the cut, and also with the cut when no other stream comes between, the value is
  parsed.
\<close>

theorem C7_shared_decoder_breaks_cut_character:
  "nbsp_line_head @ nbsp_line_tail = nbsp_line
   \<and> sent_by 0 (run_events utf8_env TRANSLATE None [example_stream, example_stream]
                  [Chunk 0 nbsp_line, Chunk 1 plain_line, End 0, End 1])
       = [Record (DataRecord (JObj [(''echo'', JObj [(''a'', JNum 1)])])), Record DoneRecord]
   \<and> sent_by 0 (run_events utf8_env TRANSLATE None [example_stream, example_stream]
                  [Chunk 0 nbsp_line_head, Chunk 1 plain_line, Chunk 0 nbsp_line_tail,
                   End 0, End 1])
       = [Record DoneRecord]
   \<and> sent_by 1 (run_events utf8_env TRANSLATE None [example_stream, example_stream]
                  [Chunk 0 nbsp_line_head, Chunk 1 plain_line, Chunk 0 nbsp_line_tail,
                   End 0, End 1])
       = [Record DoneRecord]
   \<and> sent_by 0 (run_events utf8_env TRANSLATE None [example_stream, example_stream]
                  [Chunk 0 nbsp_line_head, Chunk 0 nbsp_line_tail, Chunk 1 plain_line,
                   End 0, End 1])
       = [Record (DataRecord (JObj [(''echo'', JObj [(''a'', JNum 1)])])), Record DoneRecord]"
proof -
  have 1: "nbsp_line_head @ nbsp_line_tail = nbsp_line"
    by (simp add: nbsp_line_def nbsp_line_head_def nbsp_line_tail_def)
  have 2: "sent_by 0 (run_events utf8_env TRANSLATE None [example_stream, example_stream]
                  [Chunk 0 nbsp_line, Chunk 1 plain_line, End 0, End 1])
       = [Record (DataRecord (JObj [(''echo'', JObj [(''a'', JNum 1)])])), Record DoneRecord]"
    by (simp add: shared_eval)
  have 3: "sent_by 0 (run_events utf8_env TRANSLATE None [example_stream, example_stream]
                  [Chunk 0 nbsp_line_head, Chunk 1 plain_line, Chunk 0 nbsp_line_tail,
                   End 0, End 1])
       = [Record DoneRecord]"
    by (simp add: shared_eval)
  have 4: "sent_by 1 (run_events utf8_env TRANSLATE None [example_stream, example_stream]
                  [Chunk 0 nbsp_line_head, Chunk 1 plain_line, Chunk 0 nbsp_line_tail,
                   End 0, End 1])
       = [Record DoneRecord]"
    by (simp add: shared_eval)
  have 5: "sent_by 0 (run_events utf8_env TRANSLATE None [example_stream, example_stream]
                  [Chunk 0 nbsp_line_head, Chunk 0 nbsp_line_tail, Chunk 1 plain_line,
                   End 0, End 1])
       = [Record (DataRecord (JObj [(''echo'', JObj [(''a'', JNum 1)])])), Record DoneRecord]"
    by (simp add: shared_eval)
  from 1 2 3 4 5 show ?thesis by blast
qed

theorem C7_shared_decoder_breaks_cut_character_witness:
  "sent_by 0 (run_events utf8_env TRANSLATE None [example_stream, example_stream]
                [Chunk 0 nbsp_line, Chunk 1 plain_line, End 0, End 1])
     \<noteq> sent_by 0 (run_events utf8_env TRANSLATE None [example_stream, example_stream]
                  [Chunk 0 nbsp_line_head, Chunk 1 plain_line, Chunk 0 nbsp_line_tail,
                   End 0, End 1])"
  using C7_shared_decoder_breaks_cut_character by simp

section \<open>Cleaning a tool's JSON schema: the documented scenario\<close>

lemma is_object_simps [simp]:
  "is_object (JObj kvs)" "is_object (JArr xs)" "\<not> is_object (JStr s)" "\<not> is_object (JNum n)"
  "\<not> is_object (JBool b)" "\<not> is_object JNull" "\<not> is_object JUndefined"
  by (simp_all add: is_object_def)

lemmas schema_eval =
  descend_def descend_opt_def const_to_enum_here_def enum_to_strings_here_def
  merge_allOf_here_def flatten_here_def flatten_key_def type_array_here_def strip_here_def
  cleanup_required_here_def placeholder_here_def obj_set_def obj_without_def assign_def
  own_entries_def selectBest_def score_def has_own_def UNSUPPORTED_SCHEMA_CONSTRAINTS_def
  placeholder_properties_def placeholder_required_def reason_schema_def Let_def

text \<open>
  Claim C5.  Cleaning the schema of the documented scenario, an object schema with one
  property \<open>x\<close> given by a \<open>const\<close> and an \<open>anyOf\<close> of a string branch and an object
  branch without properties, yields an object schema whose only property is the
  placeholder string property \<open>reason\<close>, with its description, and whose required list
  is exactly \<open>reason\<close>: of the two branches the object branch is selected (index 1), its
  empty \<open>properties\<close> replaces the one of the schema, and the placeholder is injected.
\<close>

theorem C5_scenario_schema_cleaned:
  "cleanJSONSchemaForAntigravity numstr scenario_schema =
     Some (JObj [(''type'', JStr ''object''),
                 (''properties'',
                  JObj [(''reason'',
                         JObj [(''type'', JStr ''string''),
                               (''description'',
                                JStr ''Brief explanation of why you are calling this tool'')])]),
                 (''required'', JArr [JStr ''reason''])])
   \<and> selectBest [JObj [(''type'', JStr ''string'')],
                 JObj [(''type'', JStr ''object''), (''properties'', JObj [])]] = 1"
  by (simp add: cleanJSONSchemaForAntigravity_def scenario_schema_def schema_eval)

theorem C5_scenario_schema_cleaned_witness:
  "cleanJSONSchemaForAntigravity (\<lambda>n. ''5'') scenario_schema =
     Some (JObj [(''type'', JStr ''object''),
                 (''properties'', placeholder_properties),
                 (''required'', placeholder_required)])"
  using C5_scenario_schema_cleaned [of "\<lambda>n. ''5''"]
  by (simp add: placeholder_properties_def placeholder_required_def reason_schema_def)

section \<open>OpenAI to Kiro: where the tool specifications end up\<close>


lemma tools_of_clean_item: "tools_of (clean_item model_id item) = None"
  by (cases item)
     (auto simp: clean_item_def tools_of_def Let_def split: option.splits)

lemma flushPending_history:
  "history (flushPending tools st) =
     (if currentRole st = Some ''user'' \<or> currentRole st = Some ''assistant''
      then history st @ [last (history (flushPending tools st))] else history st)"
  by (simp add: flushPending_def Let_def)

lemma flushPending_user:
  assumes "currentRole st = Some ''user''"
  shows "\<exists>u. history (flushPending tools st) = history st @ [UserInputMessage u]
           \<and> specs_ok tools (UserInputMessage u)
           \<and> (tools \<noteq> [] \<and> history st = [] \<longrightarrow>
                tools_of (UserInputMessage u) = Some (map toolSpecification tools))"
  using assms
  by (simp add: flushPending_def Let_def specs_ok_def tools_of_def)

lemma flushPending_assistant:
  assumes "currentRole st = Some ''assistant''"
  shows "\<exists>a. history (flushPending tools st) = history st @ [AssistantResponseMessage a]"
  using assms by (simp add: flushPending_def Let_def)

lemma flushPending_other:
  assumes "currentRole st \<noteq> Some ''user''" "currentRole st \<noteq> Some ''assistant''"
  shows "flushPending tools st = st"
  using assms by (simp add: flushPending_def)

lemma flushPending_currentRole: "currentRole (flushPending tools st) = currentRole st"
  by (simp add: flushPending_def Let_def)

lemma flushPending_uuid: "uuid_calls (flushPending tools st) = uuid_calls st"
  by (simp add: flushPending_def Let_def)

lemma user_branch_fields:
  "history (user_branch msg st) = history st"
  "currentRole (user_branch msg st) = currentRole st"
  by (auto simp: user_branch_def Let_def split: msg_content.splits)


lemma assistant_branch_history:
  assumes "currentRole st = Some ''assistant''"
    and "assistant_branch uuidv4 parse_json tools msg st = Some st'"
  shows "history st' = history st \<or> (\<exists>a. history st' = history st @ [AssistantResponseMessage a])"
proof -
  define st1 where "st1 =
    (if (case km_content msg of
               KParts cs \<Rightarrow>
                 trim (join_text [10]
                         (map (\<lambda>b. text_or_empty (ip_text b))
                            (filter (\<lambda>c. ip_type c = Some ''text'') cs)))
             | KString s \<Rightarrow> trim s
             | KOther \<Rightarrow> []) \<noteq> []
     then st\<lparr>pendingAssistantContent := pendingAssistantContent st @
        [case km_content msg of
               KParts cs \<Rightarrow>
                 trim (join_text [10]
                         (map (\<lambda>b. text_or_empty (ip_text b))
                            (filter (\<lambda>c. ip_type c = Some ''text'') cs)))
             | KString s \<Rightarrow> trim s
             | KOther \<Rightarrow> []]\<rparr>
     else st)"
  have h1: "history st1 = history st" and r1: "currentRole st1 = Some ''assistant''"
    using assms(1) by (simp_all add: st1_def)
  obtain a where fl: "history (flushPending tools st1) = history st @ [AssistantResponseMessage a]"
    using flushPending_assistant [OF r1, of tools] h1 by auto
  from assms(2) have "st' = st1
      \<or> (\<exists>us n. st' = (flushPending tools st1)
            \<lparr>history := butlast (history (flushPending tools st1))
                          @ [AssistantResponseMessage (a\<lparr>arm_toolUses := Some us\<rparr>)],
              uuid_calls := n, currentRole := None\<rparr>)"
    unfolding assistant_branch_def Let_def st1_def [symmetric]
    by (auto simp: fl split: if_splits option.splits)
  then show ?thesis using h1 fl by auto
qed

lemma first_turn_user_append:
  assumes "first_turn_user tools st" "history st \<noteq> []" "history st' = history st @ xs"
  shows "first_turn_user tools st'"
  using assms by (simp add: first_turn_user_def)

lemma flushPending_first_turn_user:
  assumes "tools \<noteq> []" "first_turn_user tools st"
  shows "first_turn_user tools (flushPending tools st)"
proof (cases "history st = []")
  case True
  with assms(2) have r: "currentRole st = Some ''user''" by (simp add: first_turn_user_def)
  from flushPending_user [OF r, of tools] True assms(1) show ?thesis
    by (auto simp: first_turn_user_def is_user_def)
next
  case False
  have "\<exists>xs. history (flushPending tools st) = history st @ xs"
    by (simp add: flushPending_def Let_def)
  with assms(2) False show ?thesis by (auto intro: first_turn_user_append)
qed

lemma flushPending_nonempty:
  "currentRole st = Some ''user'' \<or> history st \<noteq> [] \<Longrightarrow> history (flushPending tools st) \<noteq> []"
  by (auto simp: flushPending_def Let_def)

lemma cm_step_first_turn_user:
  assumes "tools \<noteq> []" "first_turn_user tools st"
    and "cm_step uuidv4 parse_json tools msg st = Some st'"
  shows "first_turn_user tools st'"
proof -
  define role where
    "role = (if km_role msg = ''system'' \<or> km_role msg = ''tool'' then ''user'' else km_role msg)"
  define st1 where
    "st1 = (if Some role \<noteq> currentRole st \<and> currentRole st \<noteq> None
            then flushPending tools st else st)"
  define st2 where "st2 = st1\<lparr>currentRole := Some role\<rparr>"
  have f1: "first_turn_user tools st1"
    using assms(1,2) by (simp add: st1_def flushPending_first_turn_user)
  have h2: "history st2 = history st1" by (simp add: st2_def)
  have ne: "role \<noteq> ''user'' \<Longrightarrow> history st1 \<noteq> []"
  proof -
    assume nu: "role \<noteq> ''user''"
    show ?thesis
    proof (cases "history st = []")
      case True
      with assms(2) have r: "currentRole st = Some ''user''" by (simp add: first_turn_user_def)
      with nu have "st1 = flushPending tools st" by (simp add: st1_def)
      with r show ?thesis by (simp add: flushPending_nonempty)
    next
      case False
      then show ?thesis by (simp add: st1_def flushPending_nonempty)
    qed
  qed
  from assms(3) have step:
    "(if role = ''user'' then Some (user_branch msg st2)
      else if role = ''assistant'' then assistant_branch uuidv4 parse_json tools msg st2
      else Some st2) = Some st'"
    unfolding cm_step_def Let_def role_def [symmetric] st1_def [symmetric] st2_def [symmetric] .
  show ?thesis
  proof (cases "role = ''user''")
    case True
    with step have "st' = user_branch msg st2" by simp
    then have "history st' = history st1" "currentRole st' = Some ''user''"
      using True by (simp_all add: user_branch_fields st2_def)
    with f1 show ?thesis by (simp add: first_turn_user_def)
  next
    case False
    note nu = this
    show ?thesis
    proof (cases "role = ''assistant''")
      case True
      with step nu have ab: "assistant_branch uuidv4 parse_json tools msg st2 = Some st'" by simp
      have "currentRole st2 = Some ''assistant''" using True by (simp add: st2_def)
      from assistant_branch_history [OF this ab]
      have "\<exists>xs. history st' = history st1 @ xs" using h2 by auto
      with f1 ne [OF nu] show ?thesis by (auto intro: first_turn_user_append)
    next
      case False
      with step nu have "st' = st2" by simp
      with f1 ne [OF nu] h2 show ?thesis by (simp add: first_turn_user_def)
    qed
  qed
qed

lemma cm_loop_first_turn_user:
  assumes "tools \<noteq> []"
  shows "first_turn_user tools st \<Longrightarrow> cm_loop uuidv4 parse_json tools msgs st = Some st'
    \<Longrightarrow> first_turn_user tools st'"
proof (induction msgs arbitrary: st)
  case Nil
  then show ?case by simp
next
  case (Cons msg msgs)
  from Cons.prems(2) obtain st1 where
    s: "cm_step uuidv4 parse_json tools msg st = Some st1"
    and l: "cm_loop uuidv4 parse_json tools msgs st1 = Some st'"
    by (auto split: option.splits)
  from cm_step_first_turn_user [OF assms Cons.prems(1) s] l show ?case
    by (rule Cons.IH)
qed


lemma specs_ok_assistant [simp]: "specs_ok tools (AssistantResponseMessage a)"
  by (simp add: specs_ok_def tools_of_def)

lemma flushPending_specs_ok:
  assumes "\<forall>item \<in> set (history st). specs_ok tools item"
  shows "\<forall>item \<in> set (history (flushPending tools st)). specs_ok tools item"
proof (cases "currentRole st = Some ''user''")
  case True
  from flushPending_user [OF True, of tools] assms show ?thesis by auto
next
  case False
  show ?thesis
  proof (cases "currentRole st = Some ''assistant''")
    case True
    from flushPending_assistant [OF True, of tools] assms show ?thesis by auto
  next
    case False
    with \<open>currentRole st \<noteq> Some ''user''\<close> assms show ?thesis
      by (simp add: flushPending_other)
  qed
qed

lemma cm_step_specs_ok:
  assumes "\<forall>item \<in> set (history st). specs_ok tools item"
    and "cm_step uuidv4 parse_json tools msg st = Some st'"
  shows "\<forall>item \<in> set (history st'). specs_ok tools item"
proof -
  define role where
    "role = (if km_role msg = ''system'' \<or> km_role msg = ''tool'' then ''user'' else km_role msg)"
  define st1 where
    "st1 = (if Some role \<noteq> currentRole st \<and> currentRole st \<noteq> None
            then flushPending tools st else st)"
  define st2 where "st2 = st1\<lparr>currentRole := Some role\<rparr>"
  have f1: "\<forall>item \<in> set (history st1). specs_ok tools item"
    using assms(1) flushPending_specs_ok [OF assms(1)] by (simp add: st1_def)
  have h2: "history st2 = history st1" by (simp add: st2_def)
  from assms(2) have step:
    "(if role = ''user'' then Some (user_branch msg st2)
      else if role = ''assistant'' then assistant_branch uuidv4 parse_json tools msg st2
      else Some st2) = Some st'"
    unfolding cm_step_def Let_def role_def [symmetric] st1_def [symmetric] st2_def [symmetric] .
  show ?thesis
  proof (cases "role = ''user''")
    case True
    with step have "st' = user_branch msg st2" by simp
    then have "history st' = history st1" by (simp add: user_branch_fields st2_def)
    with f1 show ?thesis by simp
  next
    case False
    note nu = this
    show ?thesis
    proof (cases "role = ''assistant''")
      case True
      with step nu have ab: "assistant_branch uuidv4 parse_json tools msg st2 = Some st'" by simp
      have "currentRole st2 = Some ''assistant''" using True by (simp add: st2_def)
      from assistant_branch_history [OF this ab] f1 h2 show ?thesis by auto
    next
      case False
      with step nu have "st' = st2" by simp
      with f1 h2 show ?thesis by simp
    qed
  qed
qed

lemma cm_loop_specs_ok:
  "\<forall>item \<in> set (history st). specs_ok tools item
   \<Longrightarrow> cm_loop uuidv4 parse_json tools msgs st = Some st'
   \<Longrightarrow> \<forall>item \<in> set (history st'). specs_ok tools item"
proof (induction msgs arbitrary: st)
  case Nil
  then show ?case by simp
next
  case (Cons msg msgs)
  from Cons.prems(2) obtain st1 where
    s: "cm_step uuidv4 parse_json tools msg st = Some st1"
    and l: "cm_loop uuidv4 parse_json tools msgs st1 = Some st'"
    by (auto split: option.splits)
  from cm_step_specs_ok [OF Cons.prems(1) s] l show ?case
    by (rule Cons.IH)
qed

lemma cm_step_user_side:
  assumes "user_side (km_role msg)" "cm_step uuidv4 parse_json tools msg st = Some st'"
  shows "currentRole st' = Some ''user''"
    and "currentRole st = None \<Longrightarrow> history st' = history st"
  using assms
  by (auto simp: cm_step_def user_side_def user_branch_fields Let_def)

lemma cm_loop_last_user_side:
  "msgs \<noteq> [] \<Longrightarrow> user_side (km_role (last msgs))
   \<Longrightarrow> cm_loop uuidv4 parse_json tools msgs st = Some st'
   \<Longrightarrow> currentRole st' = Some ''user''"
proof (induction msgs arbitrary: st)
  case Nil
  then show ?case by simp
next
  case (Cons msg msgs)
  from Cons.prems(3) obtain st1 where
    s: "cm_step uuidv4 parse_json tools msg st = Some st1"
    and l: "cm_loop uuidv4 parse_json tools msgs st1 = Some st'"
    by (auto split: option.splits)
  show ?case
  proof (cases "msgs = []")
    case True
    with l have "st' = st1" by simp
    with Cons.prems(2) True s show ?thesis by (simp add: cm_step_user_side(1))
  next
    case False
    with Cons.prems(2) have "user_side (km_role (last msgs))" by simp
    from Cons.IH [OF False this l] show ?thesis .
  qed
qed

lemma cm_turns_user_conversation:
  assumes "tools \<noteq> []" "messages \<noteq> []"
    and "user_side (km_role (hd messages))" "user_side (km_role (last messages))"
    and "cm_turns uuidv4 parse_json tools messages = Some st"
  shows "history st \<noteq> []"
    and "is_user (last (history st))"
    and "tools_of (hd (history st)) = Some (map toolSpecification tools)"
    and "\<forall>item \<in> set (history st). specs_ok tools item"
proof -
  from assms(5) obtain st0 where
    l: "cm_loop uuidv4 parse_json tools messages cm_init = Some st0"
    and st: "st = (if currentRole st0 \<noteq> None then flushPending tools st0 else st0)"
    by (auto simp: cm_turns_def split: option.splits)
  obtain msg msgs where m: "messages = msg # msgs" using assms(2) by (cases messages) auto
  from l m obtain st1 where
    s: "cm_step uuidv4 parse_json tools msg cm_init = Some st1"
    and l1: "cm_loop uuidv4 parse_json tools msgs st1 = Some st0"
    by (auto split: option.splits)
  have "user_side (km_role msg)" using assms(3) m by simp
  from cm_step_user_side [OF this s]
  have "first_turn_user tools st1" by (simp add: first_turn_user_def cm_init_def)
  from cm_loop_first_turn_user [OF assms(1) this l1]
  have f0: "first_turn_user tools st0" .
  have r0: "currentRole st0 = Some ''user''"
    using cm_loop_last_user_side [OF assms(2,4) l] .
  then have st': "st = flushPending tools st0" using st by simp
  have f: "first_turn_user tools st"
    unfolding st' using assms(1) f0 by (rule flushPending_first_turn_user)
  from flushPending_user [OF r0, of tools] obtain u where
    h: "history st = history st0 @ [UserInputMessage u]" unfolding st' by blast
  then show "history st \<noteq> []" by simp
  with f show "tools_of (hd (history st)) = Some (map toolSpecification tools)"
    by (simp add: first_turn_user_def)
  from h show "is_user (last (history st))" by (simp add: is_user_def)
  have "\<forall>item \<in> set (history cm_init). specs_ok tools item" by (simp add: cm_init_def)
  from cm_loop_specs_ok [OF this l]
  show "\<forall>item \<in> set (history st). specs_ok tools item"
    unfolding st' by (rule flushPending_specs_ok)
qed

lemma set_tools_user:
  "is_user item \<Longrightarrow> \<exists>item'. set_tools ts item = Some item' \<and> tools_of item' = Some ts"
  by (cases item) (auto simp: set_tools_def tools_of_def is_user_def)

lemmas kiro_eval =
  convertMessages_def cm_turns_def cm_step_def cm_init_def flushPending_def user_branch_def
  assistant_branch_def move_tools_def set_tools_def clean_item_def deref_def tools_of_def
  is_user_def toolSpecification_def or_opt_def or_text_def text_or_empty_def trim_def js_def
  is_space_def js_or_def text_message_def example_tool_def example_conversation_def Let_def

lemma example_conversation_converted:
  "convertMessages example_uuidv4 example_parse_json example_conversation [example_tool] ''m'' =
     Some ([UserInputMessage \<lparr>uim_content = js ''a'', uim_modelId = ''m'', uim_context = None\<rparr>,
            AssistantResponseMessage \<lparr>arm_content = js ''b'', arm_toolUses = None\<rparr>],
           Some (UserInputMessage
                   \<lparr>uim_content = js ''c'', uim_modelId = [],
                    uim_context =
                      Some \<lparr>ctx_toolResults = None,
                            ctx_tools = Some [toolSpecification example_tool]\<rparr>\<rparr>))"
  by (simp add: kiro_eval)

text \<open>
  Claim C8 asks that the tool specifications be attached to the very first user turn and to
  no other.  \<^verbatim>\<open>flushPending\<close> does attach them to the first turn, but the end of
  \<^verbatim>\<open>convertMessages\<close> moves them to the current message and deletes them from every
  turn of the history.  For a conversation of a user, an assistant and a user message
  with one tool, the first user turn comes out without tools and the third turn, the
  current message, carries them.
\<close>

theorem C8_tools_leave_first_user_turn:
  "convertMessages example_uuidv4 example_parse_json example_conversation [example_tool] ''m'' =
     Some ([UserInputMessage \<lparr>uim_content = js ''a'', uim_modelId = ''m'', uim_context = None\<rparr>,
            AssistantResponseMessage \<lparr>arm_content = js ''b'', arm_toolUses = None\<rparr>],
           Some (UserInputMessage
                   \<lparr>uim_content = js ''c'', uim_modelId = [],
                    uim_context =
                      Some \<lparr>ctx_toolResults = None,
                            ctx_tools = Some [toolSpecification example_tool]\<rparr>\<rparr>))"
  by (rule example_conversation_converted)

text \<open>
  Claim C8, amended.  Whatever the conversation, no turn of the translated history carries
  tool specifications.  When the request has tools and its messages begin and end with a
  message of the user side (role \<open>user\<close>, \<open>system\<close> or \<open>tool\<close>), the current message,
  which is the last user turn, carries the specifications of all the tools.
\<close>

theorem C8_tools_only_on_current_message:
  assumes "convertMessages uuidv4 parse_json messages tools model_id = Some (hist, cur)"
  shows "(\<forall>item \<in> set hist. tools_of item = None)
    \<and> (tools \<noteq> [] \<and> messages \<noteq> [] \<and> user_side (km_role (hd messages))
         \<and> user_side (km_role (last messages))
       \<longrightarrow> (\<exists>item. cur = Some item \<and> is_user item
              \<and> tools_of item = Some (map toolSpecification tools)))"
proof -
  from assms obtain st where t: "cm_turns uuidv4 parse_json tools messages = Some st"
    by (auto simp: convertMessages_def split: option.splits)
  define popped where "popped =
     (if length (history st) > 0 \<and> is_user (last (history st))
      then (butlast (history st), Popped (last (history st)))
      else (history st, case currentMessage st of None \<Rightarrow> Null | Some j \<Rightarrow> InHistory j))"
  have "(case move_tools popped of
           None \<Rightarrow> None
         | Some (h, r) \<Rightarrow>
             Some (map (clean_item model_id) h, deref (map (clean_item model_id) h) r))
        = Some (hist, cur)"
    using assms unfolding convertMessages_def t option.case Let_def popped_def [symmetric] .
  then obtain h r where
    mv: "move_tools popped = Some (h, r)"
    and hist: "hist = map (clean_item model_id) h"
    and cur: "cur = deref hist r"
    by (auto split: option.splits)
  have 1: "\<forall>item \<in> set hist. tools_of item = None"
    by (simp add: hist tools_of_clean_item)
  have 2: "\<exists>item. cur = Some item \<and> is_user item
              \<and> tools_of item = Some (map toolSpecification tools)"
    if c: "tools \<noteq> []" "messages \<noteq> []" "user_side (km_role (hd messages))"
      "user_side (km_role (last messages))"
  proof -
    note k = cm_turns_user_conversation [OF c t]
    let ?H = "history st"
    let ?specs = "map toolSpecification tools"
    have p: "popped = (butlast ?H, Popped (last ?H))" using k(1,2) by (simp add: popped_def)
    have lst: "specs_ok tools (last ?H)" using k(1,4) by simp
    show ?thesis
    proof (cases "butlast ?H = []")
      case True
      then have one: "last ?H = hd ?H" using k(1) by (cases ?H) (auto split: if_splits)
      from mv p True have "r = Popped (last ?H)" by (simp add: move_tools_def)
      with cur one k(2,3) show ?thesis by (simp add: deref_def)
    next
      case False
      then have "butlast ?H ! 0 = hd ?H" by (cases ?H) (auto simp: nth_Cons')
      then have first: "tools_of (butlast ?H ! 0) = Some ?specs" using k(3) by simp
      show ?thesis
      proof (cases "tools_of (last ?H) = None")
        case True
        from set_tools_user [OF k(2), of ?specs] obtain item' where
          s: "set_tools ?specs (last ?H) = Some item'" "tools_of item' = Some ?specs" by blast
        have u: "is_user item'" using s(1) k(2)
          by (cases "last ?H") (auto simp: set_tools_def is_user_def)
        from mv p False first True s have "r = Popped item'" by (auto simp: move_tools_def)
        with cur s u show ?thesis by (simp add: deref_def)
      next
        case False
        with lst have l: "tools_of (last ?H) = Some ?specs" by (simp add: specs_ok_def)
        from mv p \<open>butlast ?H \<noteq> []\<close> first l have "r = Popped (last ?H)"
          by (auto simp: move_tools_def)
        with cur l k(2) show ?thesis by (simp add: deref_def)
      qed
    qed
  qed
  from 1 2 show ?thesis by blast
qed

theorem C8_tools_only_on_current_message_witness:
  "convertMessages example_uuidv4 example_parse_json example_conversation [example_tool] ''m''
     \<noteq> None
   \<and> tools_of (UserInputMessage
                  \<lparr>uim_content = js ''a'', uim_modelId = ''m'', uim_context = None\<rparr>) = None
   \<and> (\<exists>item. is_user item
         \<and> tools_of item = Some (map toolSpecification [example_tool]))"
proof -
  note r = example_conversation_converted
  have c: "[example_tool] \<noteq> [] \<and> example_conversation \<noteq> []
      \<and> user_side (km_role (hd example_conversation))
      \<and> user_side (km_role (last example_conversation))"
    by (simp add: example_conversation_def text_message_def user_side_def)
  from C8_tools_only_on_current_message [OF r] c show ?thesis
    unfolding r by auto
qed

end
